theory Spec2Isabelle
  imports Main "HOL-Library.Sublist"
begin

section \<open>Values and strings of the source language\<close>

text \<open>
  The parsers hand over plain JavaScript objects. A field that the code only passes on
  is a \<open>string option\<close> (\<open>None\<close>: the field is absent); \<open>location\<close> is
  tested for truthiness and converted with \<open>String(...)\<close>, so it keeps its JavaScript
  value, one of the primitive values a parser can read from its input.

  A number of the language is \<open>NaN\<close>, an infinity (\<open>Infinity True\<close> is the negative
  one) or a finite value: \<open>Finite neg m ex\<close> stands for \<open>m * 2 ^ ex\<close>, negated when
  \<open>neg\<close> holds. Every double has this form; the two zeros are the values with
  \<open>m = 0\<close>.
\<close>

datatype js_number = NaN | Infinity bool | Finite bool nat int

datatype js_value = JsUndefined | JsNull | JsBool bool | JsNumber js_number | JsString string

text \<open>\<open>ToBoolean\<close>: among the numbers, both zeros and \<open>NaN\<close> are falsy.\<close>

fun truthy_number :: "js_number \<Rightarrow> bool" where
  "truthy_number NaN = False"
| "truthy_number (Infinity neg) = True"
| "truthy_number (Finite neg m ex) = (m \<noteq> 0)"

fun truthy :: "js_value \<Rightarrow> bool" where
  "truthy JsUndefined = False"
| "truthy JsNull = False"
| "truthy (JsBool b) = b"
| "truthy (JsNumber n) = truthy_number n"
| "truthy (JsString s) = (s \<noteq> [])"

text \<open>Truthiness of an optional string field: absent and the empty string are falsy.\<close>

fun truthy_string :: "string option \<Rightarrow> bool" where
  "truthy_string None = False"
| "truthy_string (Some s) = (s \<noteq> [])"

definition digit_char :: "nat \<Rightarrow> char" where
  "digit_char d = ''0123456789'' ! d"

fun decimal :: "nat \<Rightarrow> string" where
  "decimal n = (if n < 10 then [digit_char n] else decimal (n div 10) @ [digit_char (n mod 10)])"

declare decimal.simps [simp del]

text \<open>
  \<open>String(v)\<close> of the source language. How a number is written (digits, a fraction,
  exponent notation from \<open>1e21\<close> on, \<open>NaN\<close>, \<open>Infinity\<close>) is the business of the
  language's run time: \<open>number_to_string\<close> stands for it.
\<close>

fun js_String :: "(js_number \<Rightarrow> string) \<Rightarrow> js_value \<Rightarrow> string" where
  "js_String number_to_string JsUndefined = ''undefined''"
| "js_String number_to_string JsNull = ''null''"
| "js_String number_to_string (JsBool b) = (if b then ''true'' else ''false'')"
| "js_String number_to_string (JsNumber n) = number_to_string n"
| "js_String number_to_string (JsString s) = s"

text \<open>
  \<open>String.prototype.trim\<close> removes white space and line terminators at both ends. A
  \<open>string\<close> is a list of code units below 256; among those the white space of the
  language is TAB, LF, VT, FF, CR, SPACE and NBSP.
\<close>

definition is_white_space :: "char \<Rightarrow> bool" where
  "is_white_space c \<longleftrightarrow>
     c = CHR 0x09 \<or> c = CHR 0x0A \<or> c = CHR 0x0B \<or> c = CHR 0x0C \<or> c = CHR 0x0D
     \<or> c = CHR 0x20 \<or> c = CHR 0xA0"

definition trim :: "string \<Rightarrow> string" where
  "trim s = rev (dropWhile is_white_space (rev (dropWhile is_white_space s)))"

section \<open>Data model\<close>

text \<open>What a format parser produces: \<open>{book, highlights}\<close>.\<close>

record book =
  book_title :: string
  book_author :: "string option"
  book_asin :: "string option"

record highlight =
  content :: string
  date :: "string option"
  location :: js_value
  comments :: "string option"
  source :: "string option"
  user :: "string option"

record result =
  result_book :: book
  result_highlights :: "highlight list"

text \<open>The argument of \<open>getBook\<close>: \<open>{title, metadata: {author, asin, uuid}}\<close>.\<close>

record book_params =
  params_title :: string
  params_author :: "string option"
  params_asin :: "string option"
  params_uuid :: string

text \<open>
  A document of the books collection, with the fields of the spec's data model
  (\<open>metadata.x\<close> is the field \<open>metadata_x\<close>).
\<close>

record book_doc =
  title :: string
  metadata_author :: "string option"
  metadata_asin :: "string option"
  metadata_uuid :: string
  metadata_original_title :: string
  metadata_date :: string

text \<open>
  A document of the highlights collection. \<open>metadata_location = None\<close> is the
  \<open>null\<close> the code writes; in the other optional fields \<open>None\<close> means that the
  field is not there.
\<close>

record highlight_doc =
  body :: string
  doc_title :: string
  path :: string
  metadata_book_uuid :: string
  metadata_comments :: "string option"
  metadata_location :: "string option"
  metadata_source :: "string option"
  metadata_highlighted_on :: "string option"
  metadata_highlight_by :: "string option"

section \<open>Effects\<close>

datatype collection = Books | Highlights

text \<open>A remote call as the store sees it: a listing with its \<open>limit\<close>, or a create with its body.\<close>

datatype call =
    GetDocuments collection nat
  | PostBook book_doc
  | PostHighlight highlight_doc

text \<open>The lines the code writes with \<open>console.log\<close>, \<open>console.time\<close> and \<open>console.timeEnd\<close>.\<close>

datatype line =
    Time string
  | TimeEnd string
  | Filtering nat string
  | FoundExisting string
  | Creating nat string
  | Created nat nat string
  | InvalidDate string

text \<open>How a remote call ended.\<close>

datatype outcome = Succeeded | Failed

datatype error = RemoteError | TypeError

text \<open>
  A promise after the run has gone quiet: fulfilled, rejected, or never settled
  (\<open>Pending\<close>: nobody called \<open>resolve\<close>).
\<close>

datatype 'a promise = Fulfilled 'a | Rejected error | Pending

text \<open>
  The state the code reads and writes: the module's \<open>cache\<close> (\<open>None\<close> is the initial
  \<open>null\<close>), the two collections of the remote store, the remote calls issued so far
  (each with how it ended), the console, and how many uuids have been drawn.
\<close>

record world =
  cache_highlights :: "highlight_doc list option"
  cache_books :: "book_doc list option"
  store_books :: "book_doc list"
  store_highlights :: "highlight_doc list"
  calls :: "(call \<times> outcome) list"
  console :: "line list"
  uuids_drawn :: nat

text \<open>
  What the code takes from outside: whether the remote call number \<open>n\<close> fails, the
  \<open>n\<close>-th value of \<open>uuid.v4()\<close>, the clock, \<open>moment(d, [ISO_8601, 'MMMM D, YYYY'])\<close>
  (\<open>None\<close>: not valid; otherwise its \<open>toISOString()\<close>), the helpers \<open>truncate\<close>
  (with or without the ellipsis) and \<open>slug\<close> (with or without \<open>lower\<close>), and how the
  run time writes a number.
\<close>

record env =
  fails :: "nat \<Rightarrow> bool"
  uuid_v4 :: "nat \<Rightarrow> string"
  now :: "nat \<Rightarrow> string"
  moment :: "string \<Rightarrow> string option"
  truncate_js :: "string \<Rightarrow> nat \<Rightarrow> bool \<Rightarrow> string"
  slug :: "string \<Rightarrow> bool \<Rightarrow> string"
  number_to_string :: "js_number \<Rightarrow> string"

text \<open>\<open>p.then(f)\<close>: \<open>f\<close> runs only when \<open>p\<close> is fulfilled.\<close>

definition then_promise ::
  "'a promise \<times> world \<Rightarrow> ('a \<Rightarrow> world \<Rightarrow> 'b promise \<times> world) \<Rightarrow> 'b promise \<times> world" where
  "then_promise p f =
     (case p of
        (Fulfilled x, w) \<Rightarrow> f x w
      | (Rejected e, w) \<Rightarrow> (Rejected e, w)
      | (Pending, w) \<Rightarrow> (Pending, w))"

definition log :: "line list \<Rightarrow> world \<Rightarrow> world" where
  "log ls w = w\<lparr>console := console w @ ls\<rparr>"

subsection \<open>The remote store\<close>

text \<open>
  The store is an external service, reached through \<open>siteleaf.request\<close>. Following the
  interface the spec gives for it, a listing returns every document of the collection in
  order (the limit of 9999 is sent with the call) and a create stores the body and returns
  it. Any call may fail, as the environment decides; a failed call changes nothing in the
  store. Nobody else writes to the store during a run.
\<close>

definition request_highlights :: "env \<Rightarrow> world \<Rightarrow> highlight_doc list promise \<times> world" where
  "request_highlights e w =
     (if fails e (length (calls w))
      then (Rejected RemoteError, w\<lparr>calls := calls w @ [(GetDocuments Highlights 9999, Failed)]\<rparr>)
      else (Fulfilled (store_highlights w),
            w\<lparr>calls := calls w @ [(GetDocuments Highlights 9999, Succeeded)]\<rparr>))"

definition request_books :: "env \<Rightarrow> world \<Rightarrow> book_doc list promise \<times> world" where
  "request_books e w =
     (if fails e (length (calls w))
      then (Rejected RemoteError, w\<lparr>calls := calls w @ [(GetDocuments Books 9999, Failed)]\<rparr>)
      else (Fulfilled (store_books w),
            w\<lparr>calls := calls w @ [(GetDocuments Books 9999, Succeeded)]\<rparr>))"

definition post_highlight :: "env \<Rightarrow> highlight_doc \<Rightarrow> world \<Rightarrow> highlight_doc promise \<times> world" where
  "post_highlight e params w =
     (if fails e (length (calls w))
      then (Rejected RemoteError, w\<lparr>calls := calls w @ [(PostHighlight params, Failed)]\<rparr>)
      else (Fulfilled params,
            w\<lparr>calls := calls w @ [(PostHighlight params, Succeeded)],
              store_highlights := store_highlights w @ [params]\<rparr>))"

definition post_book :: "env \<Rightarrow> book_doc \<Rightarrow> world \<Rightarrow> book_doc promise \<times> world" where
  "post_book e params w =
     (if fails e (length (calls w))
      then (Rejected RemoteError, w\<lparr>calls := calls w @ [(PostBook params, Failed)]\<rparr>)
      else (Fulfilled params,
            w\<lparr>calls := calls w @ [(PostBook params, Succeeded)],
              store_books := store_books w @ [params]\<rparr>))"

section \<open>The synchronization engine\<close>

text \<open>
  A listing is an array, and an array is truthy even when it is empty: once a listing has
  been stored in the cache, \<open>if (cache.highlights)\<close> holds.
\<close>

definition getHighlights :: "env \<Rightarrow> world \<Rightarrow> highlight_doc list promise \<times> world" where
  "getHighlights e w =
     (case cache_highlights w of
        Some highlights \<Rightarrow> (Fulfilled highlights, w)
      | None \<Rightarrow>
          then_promise (request_highlights e w)
            (\<lambda>highlights w'. (Fulfilled highlights, w'\<lparr>cache_highlights := Some highlights\<rparr>)))"

text \<open>
  \<open>filterOutExistingHighlights\<close>: the list it returns, and (in
  \<open>filterOutExistingHighlights_log\<close>) the lines it writes on the way.
\<close>

definition filterOutExistingHighlights ::
  "book_doc \<Rightarrow> highlight list \<Rightarrow> highlight_doc list \<Rightarrow> highlight list" where
  "filterOutExistingHighlights book newHighlights existingHighlights =
     (if existingHighlights = [] then newHighlights
      else
        let existing = filter (\<lambda>h. metadata_book_uuid h = metadata_uuid book) existingHighlights
        in if existing \<noteq> [] then
             let highlightBodies = map (\<lambda>h. trim (body h)) existing
             in filter (\<lambda>h. trim (content h) \<notin> set highlightBodies) newHighlights
           else newHighlights)"

definition filterOutExistingHighlights_log ::
  "env \<Rightarrow> book_doc \<Rightarrow> highlight list \<Rightarrow> highlight_doc list \<Rightarrow> line list" where
  "filterOutExistingHighlights_log e book newHighlights existingHighlights =
     (if existingHighlights = [] then []
      else
        let existing = filter (\<lambda>h. metadata_book_uuid h = metadata_uuid book) existingHighlights
        in if existing \<noteq> [] then
             let highlightBodies = map (\<lambda>h. trim (body h)) existing
             in Filtering (length existing) (title book) #
                map (\<lambda>h. FoundExisting (truncate_js e (content h) 30 True))
                  (filter (\<lambda>h. trim (content h) \<in> set highlightBodies) newHighlights)
           else [])"

text \<open>The body \<open>createHighlight\<close> posts; \<open>n\<close> is the index of the uuid it draws.\<close>

definition highlight_params :: "env \<Rightarrow> nat \<Rightarrow> highlight \<Rightarrow> book_doc \<Rightarrow> highlight_doc" where
  "highlight_params e n highlight book =
     (let truncatedTitle = truncate_js e (title book) 20 False
      in \<lparr> body = content highlight,
           doc_title = truncatedTitle @ '': '' @ truncate_js e (content highlight) 60 True,
           path = slug e (truncatedTitle @ ''-'' @ uuid_v4 e n) True,
           metadata_book_uuid = metadata_uuid book,
           metadata_comments = comments highlight,
           metadata_location =
             (if truthy (location highlight)
              then Some (js_String (number_to_string e) (location highlight)) else None),
           metadata_source = source highlight,
           metadata_highlighted_on =
             (case date highlight of
                None \<Rightarrow> None
              | Some d \<Rightarrow> if d \<noteq> [] then moment e d else None),
           metadata_highlight_by = (if truthy_string (user highlight) then user highlight else None) \<rparr>)"

definition invalid_date_log :: "env \<Rightarrow> highlight \<Rightarrow> line list" where
  "invalid_date_log e highlight =
     (case date highlight of
        None \<Rightarrow> []
      | Some d \<Rightarrow> if d \<noteq> [] \<and> moment e d = None then [InvalidDate d] else [])"

definition createHighlight :: "env \<Rightarrow> highlight \<Rightarrow> book_doc \<Rightarrow> world \<Rightarrow> nat promise \<times> world" where
  "createHighlight e highlight book w =
     (let params = highlight_params e (uuids_drawn w) highlight book;
          w1 = log (invalid_date_log e highlight) (w\<lparr>uuids_drawn := Suc (uuids_drawn w)\<rparr>)
      in then_promise (post_highlight e params w1)
           (\<lambda>doc w2.
              case cache_highlights w2 of
                None \<Rightarrow> (Rejected TypeError, w2)
              | Some hs \<Rightarrow> (Fulfilled (Suc (length hs)), w2\<lparr>cache_highlights := Some (hs @ [doc])\<rparr>)))"

text \<open>
  The \<open>async.eachSeries\<close> of \<open>createHighlights\<close>: the next highlight starts when the
  callback of the current one is called, which happens only after its create was
  fulfilled. Otherwise the callback is never called and \<open>resolve\<close> never is.
\<close>

fun createHighlights_each ::
  "env \<Rightarrow> book_doc \<Rightarrow> nat \<Rightarrow> nat \<Rightarrow> highlight list \<Rightarrow> world \<Rightarrow> unit promise \<times> world" where
  "createHighlights_each e book n i [] w = (Fulfilled (), w)"
| "createHighlights_each e book n i (highlight # rest) w =
     (case createHighlight e highlight book w of
        (Fulfilled _, w') \<Rightarrow>
          createHighlights_each e book n (Suc i) rest (log [Created i n (title book)] w')
      | (_, w') \<Rightarrow> (Pending, w'))"

definition createHighlights :: "env \<Rightarrow> highlight list \<Rightarrow> book_doc \<Rightarrow> world \<Rightarrow> unit promise \<times> world" where
  "createHighlights e highlights book w =
     then_promise (getHighlights e w)
       (\<lambda>existing w1.
          let filteredHighlights = filterOutExistingHighlights book highlights existing;
              w2 = log (filterOutExistingHighlights_log e book highlights existing) w1
          in if filteredHighlights = [] then (Fulfilled (), w2)
             else createHighlights_each e book (length filteredHighlights) 1 filteredHighlights
                    (log [Creating (length filteredHighlights) (title book)] w2))"

definition getBooks :: "env \<Rightarrow> world \<Rightarrow> book_doc list promise \<times> world" where
  "getBooks e w =
     (case cache_books w of
        Some books \<Rightarrow> (Fulfilled books, w)
      | None \<Rightarrow>
          then_promise (request_books e w)
            (\<lambda>books w'. (Fulfilled books, w'\<lparr>cache_books := Some books\<rparr>)))"

definition createBook :: "env \<Rightarrow> book_params \<Rightarrow> world \<Rightarrow> book_doc promise \<times> world" where
  "createBook e params w =
     (let doc = \<lparr> title = params_title params,
                  metadata_author = params_author params,
                  metadata_asin = params_asin params,
                  metadata_uuid = params_uuid params,
                  metadata_original_title = params_title params,
                  metadata_date = now e (length (calls w)) \<rparr>
      in then_promise (post_book e doc w)
           (\<lambda>book w'.
              case cache_books w' of
                None \<Rightarrow> (Rejected TypeError, w')
              | Some books \<Rightarrow> (Fulfilled book, w'\<lparr>cache_books := Some (books @ [book])\<rparr>)))"

definition getBook :: "env \<Rightarrow> book_params \<Rightarrow> world \<Rightarrow> book_doc promise \<times> world" where
  "getBook e bookParams w =
     then_promise (getBooks e w)
       (\<lambda>books w'.
          case find (\<lambda>b. metadata_original_title b = params_title bookParams) books of
            Some existingBook \<Rightarrow> (Fulfilled existingBook, w')
          | None \<Rightarrow> createBook e bookParams w')"

definition addBookAndHighlights :: "env \<Rightarrow> book \<Rightarrow> highlight list \<Rightarrow> world \<Rightarrow> unit promise \<times> world" where
  "addBookAndHighlights e book highlights w =
     (if highlights = [] then (Fulfilled (), w)
      else
        let timerName = ''addBookAndHighlights__'' @ slug e (truncate_js e (book_title book) 20 False) False;
            bookParams = \<lparr> params_title = book_title book,
                           params_author = book_author book,
                           params_asin = book_asin book,
                           params_uuid = uuid_v4 e (uuids_drawn w) \<rparr>;
            w1 = log [Time timerName] (w\<lparr>uuids_drawn := Suc (uuids_drawn w)\<rparr>)
        in then_promise
             (then_promise (getBook e bookParams w1) (createHighlights e highlights))
             (\<lambda>_ w'. (Fulfilled (), log [TimeEnd timerName] w')))"

text \<open>
  The \<open>async.eachSeries\<close> of \<open>parse\<close>: the callback that starts the next result is
  called only when \<open>addBookAndHighlights\<close> was fulfilled.
\<close>

fun parse_each :: "env \<Rightarrow> result list \<Rightarrow> world \<Rightarrow> unit promise \<times> world" where
  "parse_each e [] w = (Fulfilled (), w)"
| "parse_each e (r # rest) w =
     (case addBookAndHighlights e (result_book r) (result_highlights r) w of
        (Fulfilled _, w') \<Rightarrow> parse_each e rest w'
      | (_, w') \<Rightarrow> (Pending, w'))"

text \<open>
  What the three format parsers answer for a mail: \<open>None\<close> when \<open>parseable()\<close> is
  false, otherwise what \<open>parse()\<close> returns.
\<close>

record mail =
  ibooks :: "result option"
  readmill :: "result list option"
  kindle :: "result list option"

definition parse_results :: "mail \<Rightarrow> result list" where
  "parse_results m =
     (case ibooks m of None \<Rightarrow> [] | Some r \<Rightarrow> [r])
     @ (case readmill m of None \<Rightarrow> [] | Some rs \<Rightarrow> rs)
     @ (case kindle m of None \<Rightarrow> [] | Some rs \<Rightarrow> rs)"

definition parse :: "env \<Rightarrow> mail \<Rightarrow> world \<Rightarrow> unit promise \<times> world" where
  "parse e m w =
     (case parse_each e (parse_results m) (log [Time ''complete''] w) of
        (Fulfilled _, w') \<Rightarrow> (Fulfilled (), log [TimeEnd ''complete''] w')
      | (_, w') \<Rightarrow> (Pending, w'))"

text \<open>The module as it is loaded in a new process, in front of a store holding the given documents.\<close>

definition new_process :: "book_doc list \<Rightarrow> highlight_doc list \<Rightarrow> world" where
  "new_process books highlights =
     \<lparr> cache_highlights = None, cache_books = None,
       store_books = books, store_highlights = highlights,
       calls = [], console = [], uuids_drawn = 0 \<rparr>"

section \<open>The date library\<close>

text \<open>
  Modelled from the spec: the date-normalization collaborator (the \<open>moment\<close> library,
  which is not among the sources). The spec gives its contract: given a raw date string,
  it returns a normalized ISO-8601 instant or says that the string does not parse; it
  accepts ISO-8601 and the literal format "Month D, YYYY"; and "March 3, 2020" is the
  same instant as "2020-03-03T00:00:00Z".

  \<open>normalize_date\<close> accepts an ISO-8601 calendar date \<open>YYYY-MM-DD\<close>, alone or followed by
  \<open>T\<close>, a time \<open>hh:mm\<close>, \<open>hh:mm:ss\<close> or \<open>hh:mm:ss.fff\<close> and then nothing, \<open>Z\<close> or an
  offset \<open>+hh:mm\<close> or \<open>-hh:mm\<close>; and an English month name, a day and a year as in
  "March 3, 2020". A date without a time is its midnight and a time without a zone is UTC,
  which is what makes the two strings of the spec the same instant. The instant is written
  as \<open>toISOString\<close> writes it, \<open>YYYY-MM-DDThh:mm:ss.sssZ\<close>.
\<close>

definition is_digit :: "char \<Rightarrow> bool" where
  "is_digit c \<longleftrightarrow> c \<in> set ''0123456789''"

definition digit_value :: "char \<Rightarrow> nat" where
  "digit_value c =
     (case map_of [(CHR ''0'', 0), (CHR ''1'', 1), (CHR ''2'', 2), (CHR ''3'', 3), (CHR ''4'', 4),
                   (CHR ''5'', 5), (CHR ''6'', 6), (CHR ''7'', 7), (CHR ''8'', 8), (CHR ''9'', 9)] c of
        Some d \<Rightarrow> d
      | None \<Rightarrow> 0)"

text \<open>A non-empty run of digits, read as a number.\<close>

definition number :: "string \<Rightarrow> nat option" where
  "number s =
     (if s \<noteq> [] \<and> list_all is_digit s then Some (foldl (\<lambda>n c. 10 * n + digit_value c) 0 s)
      else None)"

text \<open>A number written with at least \<open>k\<close> digits.\<close>

definition padded :: "nat \<Rightarrow> nat \<Rightarrow> string" where
  "padded k n = replicate (k - length (decimal n)) (CHR ''0'') @ decimal n"

definition leap_year :: "nat \<Rightarrow> bool" where
  "leap_year y \<longleftrightarrow> y mod 4 = 0 \<and> (y mod 100 \<noteq> 0 \<or> y mod 400 = 0)"

definition days_in_month :: "nat \<Rightarrow> nat \<Rightarrow> nat" where
  "days_in_month y m =
     (if m = 2 then (if leap_year y then 29 else 28)
      else if m = 4 \<or> m = 6 \<or> m = 9 \<or> m = 11 then 30 else 31)"

definition valid_date :: "nat \<Rightarrow> nat \<Rightarrow> nat \<Rightarrow> bool" where
  "valid_date y m d \<longleftrightarrow> 1 \<le> m \<and> m \<le> 12 \<and> 1 \<le> d \<and> d \<le> days_in_month y m"

text \<open>The days from 1970-01-01 to a date of the Gregorian calendar, and back.\<close>

definition days_from_civil :: "int \<Rightarrow> int \<Rightarrow> int \<Rightarrow> int" where
  "days_from_civil y m d =
     (let y' = (if m \<le> 2 then y - 1 else y);
          era = y' div 400;
          yoe = y' - era * 400;
          doy = (153 * (if m > 2 then m - 3 else m + 9) + 2) div 5 + d - 1;
          doe = yoe * 365 + yoe div 4 - yoe div 100 + doy
      in era * 146097 + doe - 719468)"

definition civil_from_days :: "int \<Rightarrow> int \<times> int \<times> int" where
  "civil_from_days z =
     (let z' = z + 719468;
          era = z' div 146097;
          doe = z' - era * 146097;
          yoe = (doe - doe div 1460 + doe div 36524 - doe div 146096) div 365;
          doy = doe - (365 * yoe + yoe div 4 - yoe div 100);
          mp = (5 * doy + 2) div 153;
          d = doy - (153 * mp + 2) div 5 + 1;
          m = (if mp < 10 then mp + 3 else mp - 9);
          y = yoe + era * 400
      in (if m \<le> 2 then y + 1 else y, m, d))"

text \<open>
  An instant is a number of milliseconds since 1970-01-01T00:00:00Z; \<open>offset\<close> is the
  zone's offset from UTC in minutes.
\<close>

definition instant :: "nat \<times> nat \<times> nat \<Rightarrow> nat \<times> nat \<times> nat \<times> nat \<Rightarrow> int \<Rightarrow> int" where
  "instant ymd hms offset =
     (case (ymd, hms) of
        ((y, m, d), (hh, mi, ss, ms)) \<Rightarrow>
          ((days_from_civil (int y) (int m) (int d) * 24 + int hh) * 60 + int mi - offset) * 60000
          + int ss * 1000 + int ms)"

text \<open>\<open>toISOString\<close>, for the instants of the years 0 to 9999.\<close>

definition to_iso_string :: "int \<Rightarrow> string option" where
  "to_iso_string t =
     (let day = t div 86400000;
          rest = t mod 86400000
      in case civil_from_days day of
           (y, m, d) \<Rightarrow>
             if 0 \<le> y \<and> y \<le> 9999 then
               Some (padded 4 (nat y) @ ''-'' @ padded 2 (nat m) @ ''-'' @ padded 2 (nat d) @ ''T''
                     @ padded 2 (nat (rest div 3600000)) @ '':''
                     @ padded 2 (nat (rest div 60000 mod 60)) @ '':''
                     @ padded 2 (nat (rest div 1000 mod 60)) @ ''.''
                     @ padded 3 (nat (rest mod 1000)) @ ''Z'')
             else None)"

text \<open>\<open>YYYY-MM-DD\<close>.\<close>

definition iso_date :: "string \<Rightarrow> (nat \<times> nat \<times> nat) option" where
  "iso_date s =
     (if length s = 10 \<and> s ! 4 = CHR ''-'' \<and> s ! 7 = CHR ''-'' then
        (case (number (take 4 s), number (take 2 (drop 5 s)), number (drop 8 s)) of
           (Some y, Some m, Some d) \<Rightarrow> if valid_date y m d then Some (y, m, d) else None
         | _ \<Rightarrow> None)
      else None)"

text \<open>\<open>hh:mm\<close>, \<open>hh:mm:ss\<close> or \<open>hh:mm:ss.fff\<close>; of a longer fraction the milliseconds count.\<close>

definition iso_time :: "string \<Rightarrow> (nat \<times> nat \<times> nat \<times> nat) option" where
  "iso_time s =
     (if 5 \<le> length s \<and> s ! 2 = CHR '':'' then
        (case (number (take 2 s), number (take 2 (drop 3 s))) of
           (Some hh, Some mi) \<Rightarrow>
             if hh \<le> 23 \<and> mi \<le> 59 then
               (if length s = 5 then Some (hh, mi, 0, 0)
                else if 8 \<le> length s \<and> s ! 5 = CHR '':'' then
                  (case number (take 2 (drop 6 s)) of
                     Some ss \<Rightarrow>
                       if ss \<le> 59 then
                         (if length s = 8 then Some (hh, mi, ss, 0)
                          else if s ! 8 = CHR ''.'' then
                            (case number (drop 9 s) of
                               Some _ \<Rightarrow>
                                 (case number (take 3 (drop 9 s @ ''00'')) of
                                    Some ms \<Rightarrow> Some (hh, mi, ss, ms)
                                  | None \<Rightarrow> None)
                             | None \<Rightarrow> None)
                          else None)
                       else None
                   | None \<Rightarrow> None)
                else None)
             else None
         | _ \<Rightarrow> None)
      else None)"

text \<open>Nothing or \<open>Z\<close> for UTC, or an offset \<open>+hh:mm\<close> or \<open>-hh:mm\<close>; the result is in minutes.\<close>

definition iso_zone :: "string \<Rightarrow> int option" where
  "iso_zone s =
     (if s = [] \<or> s = ''Z'' then Some 0
      else if length s = 6 \<and> (s ! 0 = CHR ''+'' \<or> s ! 0 = CHR ''-'') \<and> s ! 3 = CHR '':'' then
        (case (number (take 2 (drop 1 s)), number (drop 4 s)) of
           (Some hh, Some mi) \<Rightarrow>
             if hh \<le> 23 \<and> mi \<le> 59
             then Some (if s ! 0 = CHR ''-'' then - int (60 * hh + mi) else int (60 * hh + mi))
             else None
         | _ \<Rightarrow> None)
      else None)"

definition starts_zone :: "char \<Rightarrow> bool" where
  "starts_zone c \<longleftrightarrow> c = CHR ''Z'' \<or> c = CHR ''+'' \<or> c = CHR ''-''"

definition parse_iso_8601 :: "string \<Rightarrow> int option" where
  "parse_iso_8601 s =
     (case iso_date (take 10 s) of
        None \<Rightarrow> None
      | Some ymd \<Rightarrow>
          (case drop 10 s of
             [] \<Rightarrow> Some (instant ymd (0, 0, 0, 0) 0)
           | c # rest \<Rightarrow>
               if c = CHR ''T'' then
                 (case (iso_time (takeWhile (\<lambda>x. \<not> starts_zone x) rest),
                        iso_zone (dropWhile (\<lambda>x. \<not> starts_zone x) rest)) of
                    (Some hms, Some offset) \<Rightarrow> Some (instant ymd hms offset)
                  | _ \<Rightarrow> None)
               else None))"

definition month_number :: "string \<Rightarrow> nat option" where
  "month_number name =
     map_of [(''January'', 1), (''February'', 2), (''March'', 3), (''April'', 4), (''May'', 5),
             (''June'', 6), (''July'', 7), (''August'', 8), (''September'', 9), (''October'', 10),
             (''November'', 11), (''December'', 12)] name"

text \<open>The literal format "Month D, YYYY": the midnight of that day.\<close>

definition parse_month_d_yyyy :: "string \<Rightarrow> int option" where
  "parse_month_d_yyyy s =
     (let name = takeWhile (\<lambda>c. c \<noteq> CHR '' '') s;
          after_name = drop (length name) s;
          day = takeWhile is_digit (drop 1 after_name);
          after_day = drop (length day) (drop 1 after_name);
          year = drop 2 after_day
      in if take 1 after_name = '' '' \<and> take 2 after_day = '', '' \<and> length day \<le> 2
            \<and> length year = 4 then
           (case (month_number name, number day, number year) of
              (Some m, Some d, Some y) \<Rightarrow>
                if valid_date y m d then Some (instant (y, m, d) (0, 0, 0, 0) 0) else None
            | _ \<Rightarrow> None)
         else None)"

text \<open>
  Modelled from the spec: what the date library answers for a raw date string, the
  normalized instant or nothing. ISO-8601 is tried first, then "Month D, YYYY".
\<close>

definition normalize_date :: "string \<Rightarrow> string option" where
  "normalize_date s =
     (case parse_iso_8601 s of
        Some t \<Rightarrow> to_iso_string t
      | None \<Rightarrow> (case parse_month_d_yyyy s of Some t \<Rightarrow> to_iso_string t | None \<Rightarrow> None))"

section \<open>Notions used in the statements\<close>

text \<open>The remote calls issued between two states, oldest first.\<close>

definition issued :: "world \<Rightarrow> world \<Rightarrow> (call \<times> outcome) list" where
  "issued w w' = drop (length (calls w)) (calls w')"

text \<open>The log of remote calls and the two collections only ever get longer.\<close>

definition grows :: "world \<Rightarrow> world \<Rightarrow> bool" where
  "grows w w' \<longleftrightarrow>
     prefix (calls w) (calls w') \<and> prefix (store_books w) (store_books w')
     \<and> prefix (store_highlights w) (store_highlights w')"

text \<open>
  The discipline of a run: a remote call that failed is the last one issued, and a
  fulfilled promise means that every call succeeded.
\<close>

fun succeeded :: "call \<times> outcome \<Rightarrow> bool" where
  "succeeded (c, oc) = (oc = Succeeded)"

fun fulfilled :: "'a promise \<Rightarrow> bool" where
  "fulfilled (Fulfilled x) = True"
| "fulfilled (Rejected err) = False"
| "fulfilled Pending = False"

definition orderly :: "'a promise \<Rightarrow> (call \<times> outcome) list \<Rightarrow> bool" where
  "orderly r cs \<longleftrightarrow> list_all succeeded (butlast cs) \<and> (fulfilled r \<longrightarrow> list_all succeeded cs)"

text \<open>The calls that concern the books collection, and those that concern the highlights.\<close>

fun about_books :: "call \<times> outcome \<Rightarrow> bool" where
  "about_books (GetDocuments c n, oc) = (c = Books)"
| "about_books (PostBook p, oc) = True"
| "about_books (PostHighlight p, oc) = False"

fun is_create :: "call \<times> outcome \<Rightarrow> bool" where
  "is_create (GetDocuments c n, oc) = False"
| "is_create (PostBook p, oc) = True"
| "is_create (PostHighlight p, oc) = True"

text \<open>The state in which \<open>addBookAndHighlights\<close> calls \<open>getBook\<close>, and the argument it passes.\<close>

definition started :: "env \<Rightarrow> book \<Rightarrow> world \<Rightarrow> world" where
  "started e b w =
     log [Time (''addBookAndHighlights__'' @ slug e (truncate_js e (book_title b) 20 False) False)]
       (w\<lparr>uuids_drawn := Suc (uuids_drawn w)\<rparr>)"

definition candidate :: "env \<Rightarrow> book \<Rightarrow> world \<Rightarrow> book_params" where
  "candidate e b w =
     \<lparr> params_title = book_title b, params_author = book_author b, params_asin = book_asin b,
       params_uuid = uuid_v4 e (uuids_drawn w) \<rparr>"

text \<open>How often the listing of a collection has been requested so far.\<close>

fun is_read :: "collection \<Rightarrow> call \<times> outcome \<Rightarrow> bool" where
  "is_read c (GetDocuments c' n, oc) = (c' = c)"
| "is_read c (PostBook p, oc) = False"
| "is_read c (PostHighlight p, oc) = False"

definition reads :: "collection \<Rightarrow> world \<Rightarrow> nat" where
  "reads c w = length (filter (is_read c) (calls w))"

text \<open>
  Between two steps of a run: a collection whose cache is still empty has not been
  requested, and no collection has been requested twice.
\<close>

definition reads_once :: "world \<Rightarrow> bool" where
  "reads_once w \<longleftrightarrow>
     (if cache_books w = None then reads Books w = 0 else reads Books w \<le> 1)
     \<and> (if cache_highlights w = None then reads Highlights w = 0 else reads Highlights w \<le> 1)"

definition at_most_once :: "world \<Rightarrow> bool" where
  "at_most_once w \<longleftrightarrow> reads Books w \<le> 1 \<and> reads Highlights w \<le> 1"

text \<open>A cache that has been filled mirrors the store.\<close>

definition coherent :: "world \<Rightarrow> bool" where
  "coherent w \<longleftrightarrow>
     (cache_books w = None \<or> cache_books w = Some (store_books w))
     \<and> (cache_highlights w = None \<or> cache_highlights w = Some (store_highlights w))"

text \<open>
  The store holds a tuple: the book is there under its original title, and every
  highlight of the tuple has a stored highlight of that book with the same trimmed text.
\<close>

definition synced :: "book \<Rightarrow> highlight list \<Rightarrow> world \<Rightarrow> bool" where
  "synced b hs w \<longleftrightarrow>
     hs = [] \<or>
     (\<exists>doc. find (\<lambda>x. metadata_original_title x = book_title b) (store_books w) = Some doc
        \<and> (\<forall>h\<in>set hs. \<exists>x\<in>set (store_highlights w).
              metadata_book_uuid x = metadata_uuid doc \<and> trim (body x) = trim (content h)))"


text \<open>A cache that is filled stays filled, and its collection is not requested again.\<close>

definition memoized :: "world \<Rightarrow> world \<Rightarrow> bool" where
  "memoized w w' \<longleftrightarrow>
     (cache_books w \<noteq> None \<longrightarrow> cache_books w' \<noteq> None \<and> reads Books w' = reads Books w)
     \<and> (cache_highlights w \<noteq> None \<longrightarrow>
           cache_highlights w' \<noteq> None \<and> reads Highlights w' = reads Highlights w)"

text \<open>How often the listing of a collection has been received.\<close>

definition fulfilled_reads :: "collection \<Rightarrow> world \<Rightarrow> nat" where
  "fulfilled_reads c w = length (filter (\<lambda>x. is_read c x \<and> succeeded x) (calls w))"

text \<open>A collection whose cache is empty has never been received, and none was received twice.\<close>

definition received_once :: "world \<Rightarrow> bool" where
  "received_once w \<longleftrightarrow>
     (if cache_books w = None then fulfilled_reads Books w = 0 else fulfilled_reads Books w \<le> 1)
     \<and> (if cache_highlights w = None then fulfilled_reads Highlights w = 0
         else fulfilled_reads Highlights w \<le> 1)"

section \<open>Example inputs\<close>

text \<open>
  How the run time writes \<open>NaN\<close>, the infinities and the integers below \<open>1e21\<close> (a
  finite value whose exponent is not negative); the examples use no other number.
\<close>

definition integer_to_string :: "js_number \<Rightarrow> string" where
  "integer_to_string n =
     (case n of
        NaN \<Rightarrow> ''NaN''
      | Infinity neg \<Rightarrow> (if neg then ''-Infinity'' else ''Infinity'')
      | Finite neg m ex \<Rightarrow> (if m = 0 then ''0'' else (if neg then ''-'' else []) @ decimal (m * 2 ^ nat ex)))"

text \<open>
  An environment in which every remote call succeeds and the date library is the one
  modelled above.
\<close>

definition example_env :: env where
  "example_env =
     \<lparr> fails = (\<lambda>n. False),
       uuid_v4 = (\<lambda>n. ''uuid-'' @ replicate n (CHR ''x'')),
       now = (\<lambda>n. ''2020-03-03T10:00:00-05:00''),
       moment = normalize_date,
       truncate_js = (\<lambda>s n ellipsis. if length s \<le> n then s else take n s @ (if ellipsis then ''...'' else [])),
       slug = (\<lambda>s lower. s),
       number_to_string = integer_to_string \<rparr>"

definition quote :: "string \<Rightarrow> highlight" where
  "quote s = \<lparr> content = s, date = None, location = JsUndefined, comments = None,
                source = None, user = None \<rparr>"

definition foo :: book where
  "foo = \<lparr> book_title = ''Foo'', book_author = Some ''A. Author'', book_asin = None \<rparr>"

definition bar :: book where
  "bar = \<lparr> book_title = ''Bar'', book_author = None, book_asin = None \<rparr>"

text \<open>A stored book whose display title was corrected after its creation.\<close>

definition foo_doc :: book_doc where
  "foo_doc =
     \<lparr> title = ''Foo (corrected)'', metadata_author = Some ''A. Author'', metadata_asin = None,
       metadata_uuid = ''uuid-foo'', metadata_original_title = ''Foo'',
       metadata_date = ''2019-01-01T00:00:00-05:00'' \<rparr>"

definition stored :: "string \<Rightarrow> string \<Rightarrow> highlight_doc" where
  "stored u s =
     \<lparr> body = s, doc_title = ''Foo: '' @ s, path = ''foo-1'', metadata_book_uuid = u,
       metadata_comments = None, metadata_location = None, metadata_source = None,
       metadata_highlighted_on = None, metadata_highlight_by = None \<rparr>"

text \<open>A state in which both listings have been read already.\<close>

definition cached :: "world \<Rightarrow> world" where
  "cached w = w\<lparr>cache_books := Some (store_books w), cache_highlights := Some (store_highlights w)\<rparr>"

definition foo_params :: book_params where
  "foo_params = \<lparr> params_title = ''Foo'', params_author = None, params_asin = None,
                   params_uuid = ''uuid-new'' \<rparr>"

text \<open>The example environment, except that the remote call number \<open>k\<close> fails.\<close>

definition failing_env :: "nat \<Rightarrow> env" where
  "failing_env k = example_env\<lparr>fails := (\<lambda>n. n = k)\<rparr>"

text \<open>A mail whose clippings carry two tuples: a quote of Foo, then a quote of Bar.\<close>

definition two_books :: mail where
  "two_books =
     \<lparr> ibooks = None, readmill = None,
       kindle = Some [\<lparr>result_book = foo, result_highlights = [quote ''Same quote.'']\<rparr>,
                      \<lparr>result_book = bar, result_highlights = [quote ''Same quote.'']\<rparr>] \<rparr>"

section \<open>Basic facts\<close>

lemmas engine_defs =
  createHighlight_def highlight_params_def invalid_date_log_def post_highlight_def
  then_promise_def log_def Let_def issued_def new_process_def getHighlights_def
  request_highlights_def getBooks_def request_books_def createBook_def post_book_def
  getBook_def createHighlights_def addBookAndHighlights_def filterOutExistingHighlights_def
  filterOutExistingHighlights_log_def trim_def is_white_space_def parse_def parse_results_def

lemmas example_defs =
  example_env_def quote_def foo_def bar_def foo_doc_def stored_def cached_def

lemma then_promise_cases:
  assumes "then_promise p f = (r, w')"
  obtains (run) x w1 where "p = (Fulfilled x, w1)" "f x w1 = (r, w')"
  | (rejected) err where "p = (Rejected err, w')" "r = Rejected err"
  | (pending) "p = (Pending, w')" "r = Pending"
  using assms unfolding then_promise_def
  by (cases p; cases "fst p") (auto split: promise.splits)

lemma truthy_number_iff: "truthy_number n \<longleftrightarrow> n \<noteq> NaN \<and> (\<forall>neg ex. n \<noteq> Finite neg 0 ex)"
  by (cases n) auto

lemma truthy_iff:
  "truthy v \<longleftrightarrow>
     \<not> (v \<in> {JsUndefined, JsNull, JsBool False, JsString [], JsNumber NaN}
        \<or> (\<exists>neg ex. v = JsNumber (Finite neg 0 ex)))"
  by (cases v) (auto simp: truthy_number_iff)

text \<open>The dates of the spec's example, as the modelled date library reads them.\<close>

lemma normalize_date_examples:
  "normalize_date ''March 3, 2020'' = Some ''2020-03-03T00:00:00.000Z''"
  "normalize_date ''2020-03-03T00:00:00Z'' = Some ''2020-03-03T00:00:00.000Z''"
  "normalize_date ''not a date'' = None"
  "normalize_date [] = None"
  by code_simp+

subsection \<open>Nothing is ever taken back\<close>

lemma grows_refl [simp]: "grows w w"
  by (simp add: grows_def)

lemma grows_trans: "grows w w1 \<Longrightarrow> grows w1 w2 \<Longrightarrow> grows w w2"
  unfolding grows_def by (meson prefix_order.trans)

lemma grows_log [simp]: "grows w (log ls w') = grows w w'" "grows (log ls w) w' = grows w w'"
  by (simp_all add: grows_def log_def)

lemma grows_calls: "grows w w' \<Longrightarrow> calls w' = calls w @ issued w w'"
  by (auto simp: grows_def issued_def prefix_def)

lemma issued_trans: "grows w w1 \<Longrightarrow> grows w1 w2 \<Longrightarrow> issued w w2 = issued w w1 @ issued w1 w2"
  by (auto simp: grows_def issued_def prefix_def)

lemma issued_self [simp]: "issued w w = []"
  by (simp add: issued_def)

lemma issued_log [simp]: "issued w (log ls w') = issued w w'" "issued (log ls w) w' = issued w w'"
  by (simp_all add: issued_def log_def)

lemma request_highlights_grows: "request_highlights e w = (r, w') \<Longrightarrow> grows w w'"
  by (auto simp: request_highlights_def grows_def split: if_splits)

lemma request_books_grows: "request_books e w = (r, w') \<Longrightarrow> grows w w'"
  by (auto simp: request_books_def grows_def split: if_splits)

lemma post_highlight_grows: "post_highlight e p w = (r, w') \<Longrightarrow> grows w w'"
  by (auto simp: post_highlight_def grows_def split: if_splits)

lemma post_book_grows: "post_book e p w = (r, w') \<Longrightarrow> grows w w'"
  by (auto simp: post_book_def grows_def split: if_splits)

lemma getHighlights_grows: "getHighlights e w = (r, w') \<Longrightarrow> grows w w'"
  unfolding getHighlights_def
  by (auto split: option.splits elim!: then_promise_cases dest!: request_highlights_grows
        simp: grows_def)

lemma getBooks_grows: "getBooks e w = (r, w') \<Longrightarrow> grows w w'"
  unfolding getBooks_def
  by (auto split: option.splits elim!: then_promise_cases dest!: request_books_grows
        simp: grows_def)

lemma createHighlight_grows: "createHighlight e h b w = (r, w') \<Longrightarrow> grows w w'"
  unfolding createHighlight_def Let_def
  by (auto split: option.splits elim!: then_promise_cases dest!: post_highlight_grows
        simp: grows_def log_def)

lemma createHighlights_each_grows:
  "createHighlights_each e b n i hs w = (r, w') \<Longrightarrow> grows w w'"
proof (induction hs arbitrary: i w)
  case Nil
  then show ?case by simp
next
  case (Cons h hs)
  obtain r1 w1 where c: "createHighlight e h b w = (r1, w1)" by fastforce
  have g: "grows w w1" using c by (rule createHighlight_grows)
  show ?case
  proof (cases r1)
    case (Fulfilled x)
    with Cons.prems c
    have "createHighlights_each e b n (Suc i) hs (log [Created i n (title b)] w1) = (r, w')"
      by simp
    from Cons.IH [OF this] g show ?thesis by (auto intro: grows_trans)
  qed (use Cons.prems c g in auto)
qed

lemma createHighlights_grows: "createHighlights e hs b w = (r, w') \<Longrightarrow> grows w w'"
  unfolding createHighlights_def Let_def
  by (auto split: if_splits elim!: then_promise_cases
        dest!: getHighlights_grows createHighlights_each_grows)
     (blast intro: grows_trans)

lemma createBook_grows: "createBook e p w = (r, w') \<Longrightarrow> grows w w'"
  unfolding createBook_def Let_def
  by (auto split: option.splits elim!: then_promise_cases dest!: post_book_grows simp: grows_def)

lemma getBook_grows: "getBook e p w = (r, w') \<Longrightarrow> grows w w'"
  unfolding getBook_def
  by (auto split: option.splits elim!: then_promise_cases dest!: getBooks_grows createBook_grows
        intro: grows_trans)

lemma addBookAndHighlights_grows: "addBookAndHighlights e b hs w = (r, w') \<Longrightarrow> grows w w'"
  unfolding addBookAndHighlights_def Let_def
  by (auto split: if_splits elim!: then_promise_cases dest!: getBook_grows createHighlights_grows
        intro: grows_trans simp: grows_def log_def)

lemma parse_each_grows: "parse_each e rs w = (r, w') \<Longrightarrow> grows w w'"
proof (induction rs arbitrary: w)
  case Nil
  then show ?case by simp
next
  case (Cons t rs)
  obtain r1 w1 where a: "addBookAndHighlights e (result_book t) (result_highlights t) w = (r1, w1)"
    by fastforce
  have g: "grows w w1" using a by (rule addBookAndHighlights_grows)
  show ?case
  proof (cases r1)
    case (Fulfilled x)
    with Cons.prems a have "parse_each e rs w1 = (r, w')" by simp
    from Cons.IH [OF this] g show ?thesis by (auto intro: grows_trans)
  qed (use Cons.prems a g in auto)
qed

subsection \<open>What one create does\<close>

lemma createHighlight_call:
  assumes "createHighlight e h b w = (r, w')"
  shows "\<exists>oc. issued w w' = [(PostHighlight (highlight_params e (uuids_drawn w) h b), oc)]
           \<and> (oc = Succeeded \<longrightarrow>
                store_highlights w' = store_highlights w @ [highlight_params e (uuids_drawn w) h b])
           \<and> (oc = Failed \<longrightarrow> store_highlights w' = store_highlights w)"
  using assms unfolding createHighlight_def Let_def post_highlight_def then_promise_def
  by (auto simp: issued_def log_def split: if_splits option.splits)

lemma highlight_params_highlighted_on:
  "metadata_highlighted_on (highlight_params e n h b) =
     (case date h of None \<Rightarrow> None | Some d \<Rightarrow> if d \<noteq> [] then moment e d else None)"
  by (simp add: highlight_params_def Let_def)

lemma getBooks_reads_only:
  assumes "getBooks e w = (r, w')"
  shows "store_books w' = store_books w \<and> store_highlights w' = store_highlights w
         \<and> (\<forall>c\<in>set (issued w w'). fst c = GetDocuments Books 9999)"
  using assms unfolding getBooks_def request_books_def then_promise_def
  by (auto simp: issued_def split: option.splits if_splits)

lemma createBook_call:
  assumes "createBook e p w = (r, w')"
  shows "\<exists>doc oc. issued w w' = [(PostBook doc, oc)]
           \<and> title doc = params_title p \<and> metadata_original_title doc = params_title p
           \<and> metadata_uuid doc = params_uuid p \<and> metadata_author doc = params_author p
           \<and> metadata_asin doc = params_asin p
           \<and> (oc = Succeeded \<longrightarrow> store_books w' = store_books w @ [doc])
           \<and> (oc = Failed \<longrightarrow> store_books w' = store_books w)
           \<and> (\<forall>x. r = Fulfilled x \<longrightarrow> x = doc \<and> oc = Succeeded)"
  using assms unfolding createBook_def Let_def post_book_def then_promise_def
  by (auto simp: issued_def split: if_splits option.splits)

subsection \<open>A failed call is the last call\<close>

lemma orderly_nil [simp]: "orderly r []"
  by (simp add: orderly_def)

lemma orderly_single_ok [simp]: "orderly r [(c, Succeeded)]"
  by (simp add: orderly_def)

lemma orderly_single_failed [simp]: "orderly r [(c, Failed)] \<longleftrightarrow> \<not> fulfilled r"
  by (simp add: orderly_def)

lemma orderly_append:
  "list_all succeeded cs \<Longrightarrow> orderly r cs' \<Longrightarrow> orderly r (cs @ cs')"
  by (auto simp: orderly_def butlast_append list_all_iff dest: in_set_butlastD)

lemma orderly_unfulfilled:
  "orderly r cs \<Longrightarrow> \<not> fulfilled r' \<Longrightarrow> orderly r' cs"
  by (simp add: orderly_def)

lemma orderly_fulfilled: "orderly r cs \<Longrightarrow> fulfilled r \<Longrightarrow> list_all succeeded cs"
  by (simp add: orderly_def)

lemma orderly_failed_last:
  assumes "orderly r cs" and "c \<in> set cs" and "\<not> succeeded c"
  shows "\<not> fulfilled r \<and> cs \<noteq> [] \<and> last cs = c"
proof -
  from assms have nf: "\<not> fulfilled r" by (auto simp: orderly_def list_all_iff)
  from assms(2) obtain xs ys where cs: "cs = xs @ c # ys" by (auto dest: split_list)
  have "ys = []"
  proof (rule ccontr)
    assume "ys \<noteq> []"
    with cs have "c \<in> set (butlast cs)" by (simp add: butlast_append)
    with assms(1,3) show False by (auto simp: orderly_def list_all_iff)
  qed
  with cs nf show ?thesis by simp
qed

lemma getHighlights_orderly: "getHighlights e w = (r, w') \<Longrightarrow> orderly r (issued w w')"
  unfolding getHighlights_def request_highlights_def then_promise_def
  by (auto simp: issued_def split: option.splits if_splits)

lemma getBooks_orderly: "getBooks e w = (r, w') \<Longrightarrow> orderly r (issued w w')"
  unfolding getBooks_def request_books_def then_promise_def
  by (auto simp: issued_def split: option.splits if_splits)

lemma createHighlight_failed:
  assumes "createHighlight e h b w = (r, w')" and "issued w w' = [(c, Failed)]"
  shows "r = Rejected RemoteError"
  using assms unfolding createHighlight_def Let_def post_highlight_def then_promise_def
  by (auto simp: issued_def log_def split: if_splits option.splits)

lemma createHighlight_orderly:
  assumes "createHighlight e h b w = (r, w')"
  shows "orderly r (issued w w')"
proof -
  from createHighlight_call [OF assms] obtain oc where
    i: "issued w w' = [(PostHighlight (highlight_params e (uuids_drawn w) h b), oc)]" by blast
  show ?thesis
  proof (cases oc)
    case Succeeded
    with i show ?thesis by simp
  next
    case Failed
    with i createHighlight_failed [OF assms] show ?thesis by simp
  qed
qed

lemma createBook_orderly:
  assumes "createBook e p w = (r, w')"
  shows "orderly r (issued w w')"
proof -
  from createBook_call [OF assms] obtain doc oc where
    i: "issued w w' = [(PostBook doc, oc)]" and f: "\<forall>x. r = Fulfilled x \<longrightarrow> oc = Succeeded"
    by blast
  show ?thesis
  proof (cases oc)
    case Succeeded
    with i show ?thesis by simp
  next
    case Failed
    with i f show ?thesis by (cases r) auto
  qed
qed

text \<open>Sequencing: the second step runs only after a fulfilled first step.\<close>

lemma orderly_then:
  assumes "grows w w1" and "grows w1 w2"
    and "orderly r1 (issued w w1)" and "fulfilled r1" and "orderly r (issued w1 w2)"
  shows "orderly r (issued w w2)"
proof -
  have "issued w w2 = issued w w1 @ issued w1 w2"
    using assms(1,2) by (rule issued_trans)
  moreover have "list_all succeeded (issued w w1)"
    using assms(3,4) by (rule orderly_fulfilled)
  ultimately show ?thesis
    using assms(5) by (simp add: orderly_append)
qed

lemma createHighlights_each_orderly:
  "createHighlights_each e b n i hs w = (r, w') \<Longrightarrow> orderly r (issued w w') \<and> r \<noteq> Rejected err"
proof (induction hs arbitrary: i w)
  case Nil
  then show ?case by auto
next
  case (Cons h hs)
  obtain r1 w1 where c: "createHighlight e h b w = (r1, w1)" by fastforce
  note o = createHighlight_orderly [OF c] and g = createHighlight_grows [OF c]
  show ?case
  proof (cases r1)
    case (Fulfilled x)
    with Cons.prems c
    have s: "createHighlights_each e b n (Suc i) hs (log [Created i n (title b)] w1) = (r, w')"
      by simp
    from createHighlights_each_grows [OF s] have g': "grows w1 w'" by simp
    from Cons.IH [OF s] have "orderly r (issued w1 w')" and "r \<noteq> Rejected err" by simp_all
    with orderly_then [OF g g' o] Fulfilled show ?thesis by simp
  next
    case (Rejected x)
    with Cons.prems c have "r = Pending" "w' = w1" by simp_all
    with o show ?thesis by (auto intro: orderly_unfulfilled)
  next
    case Pending
    with Cons.prems c have "r = Pending" "w' = w1" by simp_all
    with o show ?thesis by (auto intro: orderly_unfulfilled)
  qed
qed

lemma createHighlights_orderly:
  assumes "createHighlights e hs b w = (r, w')"
  shows "orderly r (issued w w')"
  using assms unfolding createHighlights_def Let_def
proof (cases rule: then_promise_cases)
  case (run x w1)
  note g = getHighlights_grows [OF run(1)] and o = getHighlights_orderly [OF run(1)]
  show ?thesis
  proof (cases "filterOutExistingHighlights b hs x = []")
    case True
    with run(2) have "w' = log (filterOutExistingHighlights_log e b hs x) w1" "fulfilled r"
      by auto
    with o show ?thesis by (simp add: orderly_def)
  next
    case False
    let ?f = "filterOutExistingHighlights b hs x"
    let ?w2 = "log [Creating (length ?f) (title b)] (log (filterOutExistingHighlights_log e b hs x) w1)"
    from run(2) False have s: "createHighlights_each e b (length ?f) 1 ?f ?w2 = (r, w')"
      by (simp add: Let_def)
    from createHighlights_each_grows [OF s] have g': "grows w1 w'" by simp
    from createHighlights_each_orderly [OF s] have "orderly r (issued w1 w')" by simp
    from orderly_then [OF g g' o _ this] show ?thesis by simp
  qed
next
  case (rejected err)
  with getHighlights_orderly [of e w "Rejected err" w'] show ?thesis
    by (auto intro: orderly_unfulfilled)
next
  case pending
  with getHighlights_orderly [of e w Pending w'] show ?thesis
    by (auto intro: orderly_unfulfilled)
qed

subsection \<open>The ways the steps of a run can end\<close>

lemma getBook_cases:
  assumes "getBook e p w = (r, w')"
  obtains (listing_failed) r1 where "getBooks e w = (r1, w')" "\<not> fulfilled r1" "\<not> fulfilled r"
  | (found) books b where "getBooks e w = (Fulfilled books, w')"
      "find (\<lambda>x. metadata_original_title x = params_title p) books = Some b" "r = Fulfilled b"
  | (created) books w1 where "getBooks e w = (Fulfilled books, w1)"
      "find (\<lambda>x. metadata_original_title x = params_title p) books = None"
      "createBook e p w1 = (r, w')"
  using assms unfolding getBook_def
  by (elim then_promise_cases) (auto split: option.splits)

lemma createHighlights_cases:
  assumes "createHighlights e hs b w = (r, w')"
  obtains (listing_failed) r1 where "getHighlights e w = (r1, w')" "\<not> fulfilled r1" "\<not> fulfilled r"
  | (nothing_new) existing w1 where "getHighlights e w = (Fulfilled existing, w1)"
      "filterOutExistingHighlights b hs existing = []" "r = Fulfilled ()"
      "w' = log (filterOutExistingHighlights_log e b hs existing) w1"
  | (writes) existing w1 where "getHighlights e w = (Fulfilled existing, w1)"
      "filterOutExistingHighlights b hs existing \<noteq> []"
      "createHighlights_each e b (length (filterOutExistingHighlights b hs existing)) 1
         (filterOutExistingHighlights b hs existing)
         (log [Creating (length (filterOutExistingHighlights b hs existing)) (title b)]
            (log (filterOutExistingHighlights_log e b hs existing) w1)) = (r, w')"
  using assms unfolding createHighlights_def Let_def
  by (elim then_promise_cases) (auto split: if_splits)

lemma then_promise_simps [simp]:
  "then_promise (Fulfilled x, w) f = f x w"
  "then_promise (Rejected err, w) f = (Rejected err, w)"
  "then_promise (Pending, w) f = (Pending, w)"
  by (simp_all add: then_promise_def)

lemma addBookAndHighlights_unfold:
  "hs \<noteq> [] \<Longrightarrow>
   addBookAndHighlights e b hs w =
     then_promise (then_promise (getBook e (candidate e b w) (started e b w)) (createHighlights e hs))
       (\<lambda>_ w'. (Fulfilled (),
          log [TimeEnd (''addBookAndHighlights__'' @ slug e (truncate_js e (book_title b) 20 False) False)] w'))"
  by (simp add: addBookAndHighlights_def Let_def started_def candidate_def)

lemma addBookAndHighlights_cases:
  assumes "addBookAndHighlights e b hs w = (r, w')"
  obtains (skipped) "hs = []" "r = Fulfilled ()" "w' = w"
  | (book_failed) r1 where "hs \<noteq> []" "getBook e (candidate e b w) (started e b w) = (r1, w')"
      "\<not> fulfilled r1" "\<not> fulfilled r"
  | (highlights_failed) doc w1 r2 where "hs \<noteq> []"
      "getBook e (candidate e b w) (started e b w) = (Fulfilled doc, w1)"
      "createHighlights e hs doc w1 = (r2, w')" "\<not> fulfilled r2" "r = r2"
  | (completed) doc w1 w2 where "hs \<noteq> []"
      "getBook e (candidate e b w) (started e b w) = (Fulfilled doc, w1)"
      "createHighlights e hs doc w1 = (Fulfilled (), w2)" "r = Fulfilled ()"
      "w' = log [TimeEnd (''addBookAndHighlights__'' @ slug e (truncate_js e (book_title b) 20 False) False)] w2"
proof (cases "hs = []")
  case True
  with assms that(1) show ?thesis by (simp add: addBookAndHighlights_def)
next
  case False
  note u = addBookAndHighlights_unfold [OF False, of e b w]
  obtain r1 w1 where gb: "getBook e (candidate e b w) (started e b w) = (r1, w1)" by fastforce
  show ?thesis
  proof (cases r1)
    case (Fulfilled doc)
    note r1 = this
    obtain r2 w2 where ch: "createHighlights e hs doc w1 = (r2, w2)" by fastforce
    show ?thesis
    proof (cases r2)
      case (Fulfilled x)
      with assms u gb r1 ch have
        "r = Fulfilled ()"
        "w' = log [TimeEnd (''addBookAndHighlights__'' @ slug e (truncate_js e (book_title b) 20 False) False)] w2"
        by simp_all
      moreover from gb r1 have "getBook e (candidate e b w) (started e b w) = (Fulfilled doc, w1)"
        by simp
      moreover from ch Fulfilled have "createHighlights e hs doc w1 = (Fulfilled (), w2)" by simp
      ultimately show ?thesis using False by (intro that(4)) auto
    next
      case (Rejected err)
      with assms u gb r1 ch have "r = r2" "w' = w2" by simp_all
      moreover from gb r1 have "getBook e (candidate e b w) (started e b w) = (Fulfilled doc, w1)"
        by simp
      moreover from Rejected have "\<not> fulfilled r2" by simp
      ultimately show ?thesis using False ch by (intro that(3)) auto
    next
      case Pending
      with assms u gb r1 ch have "r = r2" "w' = w2" by simp_all
      moreover from gb r1 have "getBook e (candidate e b w) (started e b w) = (Fulfilled doc, w1)"
        by simp
      moreover from Pending have "\<not> fulfilled r2" by simp
      ultimately show ?thesis using False ch by (intro that(3)) auto
    qed
  next
    case (Rejected err)
    with assms u gb have "r = Rejected err" "w' = w1" by simp_all
    with gb Rejected False show ?thesis by (intro that(2)) auto
  next
    case Pending
    with assms u gb have "r = Pending" "w' = w1" by simp_all
    with gb Pending False show ?thesis by (intro that(2)) auto
  qed
qed

lemma started_simps [simp]:
  "calls (started e b w) = calls w"
  "store_books (started e b w) = store_books w"
  "store_highlights (started e b w) = store_highlights w"
  "cache_books (started e b w) = cache_books w"
  "cache_highlights (started e b w) = cache_highlights w"
  "uuids_drawn (started e b w) = Suc (uuids_drawn w)"
  "issued (started e b w) w' = issued w w'"
  "issued w' (started e b w) = issued w' w"
  "grows (started e b w) w' = grows w w'"
  "grows w' (started e b w) = grows w' w"
  by (simp_all add: started_def log_def issued_def grows_def)

lemma log_simps [simp]:
  "calls (log ls w) = calls w"
  "store_books (log ls w) = store_books w"
  "store_highlights (log ls w) = store_highlights w"
  "cache_books (log ls w) = cache_books w"
  "cache_highlights (log ls w) = cache_highlights w"
  "uuids_drawn (log ls w) = uuids_drawn w"
  by (simp_all add: log_def)

lemma getBook_orderly:
  assumes "getBook e p w = (r, w')"
  shows "orderly r (issued w w')"
  using assms
proof (cases rule: getBook_cases)
  case (listing_failed r1)
  with getBooks_orderly [of e w r1 w'] show ?thesis by (auto intro: orderly_unfulfilled)
next
  case (found books b)
  with getBooks_orderly [of e w "Fulfilled books" w'] show ?thesis by (simp add: orderly_def)
next
  case (created books w1)
  show ?thesis
    using getBooks_grows [OF created(1)] createBook_grows [OF created(3)]
      getBooks_orderly [OF created(1)] _ createBook_orderly [OF created(3)]
    by (rule orderly_then) simp
qed

lemma addBookAndHighlights_orderly:
  assumes "addBookAndHighlights e b hs w = (r, w')"
  shows "orderly r (issued w w')"
  using assms
proof (cases rule: addBookAndHighlights_cases)
  case skipped
  then show ?thesis by simp
next
  case (book_failed r1)
  with getBook_orderly [of e "candidate e b w" "started e b w" r1 w'] show ?thesis
    by (auto simp: orderly_def)
next
  case (highlights_failed doc w1 r2)
  have "orderly r2 (issued (started e b w) w')"
    using getBook_grows [OF highlights_failed(2)] createHighlights_grows [OF highlights_failed(3)]
      getBook_orderly [OF highlights_failed(2)] _ createHighlights_orderly [OF highlights_failed(3)]
    by (rule orderly_then) simp
  with highlights_failed show ?thesis by simp
next
  case (completed doc w1 w2)
  have "orderly (Fulfilled ()) (issued (started e b w) w2)"
    using getBook_grows [OF completed(2)] createHighlights_grows [OF completed(3)]
      getBook_orderly [OF completed(2)] _ createHighlights_orderly [OF completed(3)]
    by (rule orderly_then) simp
  with completed show ?thesis by simp
qed

lemma parse_each_orderly:
  "parse_each e rs w = (r, w') \<Longrightarrow> orderly r (issued w w') \<and> r \<noteq> Rejected err"
proof (induction rs arbitrary: w)
  case Nil
  then show ?case by auto
next
  case (Cons t rs)
  obtain r1 w1 where a: "addBookAndHighlights e (result_book t) (result_highlights t) w = (r1, w1)"
    by fastforce
  note o = addBookAndHighlights_orderly [OF a] and g = addBookAndHighlights_grows [OF a]
  show ?case
  proof (cases r1)
    case (Fulfilled x)
    with Cons.prems a have s: "parse_each e rs w1 = (r, w')" by simp
    from Cons.IH [OF s] have "orderly r (issued w1 w')" and "r \<noteq> Rejected err" by simp_all
    with orderly_then [OF g parse_each_grows [OF s] o] Fulfilled show ?thesis by simp
  next
    case (Rejected x)
    with Cons.prems a have "r = Pending" "w' = w1" by simp_all
    with o show ?thesis by (auto intro: orderly_unfulfilled)
  next
    case Pending
    with Cons.prems a have "r = Pending" "w' = w1" by simp_all
    with o show ?thesis by (auto intro: orderly_unfulfilled)
  qed
qed

lemma parse_each_append:
  "parse_each e pre w = (Fulfilled u, w0) \<Longrightarrow> parse_each e (pre @ post) w = parse_each e post w0"
proof (induction pre arbitrary: w)
  case Nil
  then show ?case by simp
next
  case (Cons t pre)
  obtain r1 w1 where a: "addBookAndHighlights e (result_book t) (result_highlights t) w = (r1, w1)"
    by fastforce
  with Cons.prems have "fulfilled r1" by (cases r1) auto
  with Cons a show ?case by (cases r1) auto
qed

lemma parse_cases:
  assumes "parse e m w = (r, w')"
  obtains (completed) w1 where
      "parse_each e (parse_results m) (log [Time ''complete''] w) = (Fulfilled (), w1)"
      "r = Fulfilled ()" "w' = log [TimeEnd ''complete''] w1"
  | (stalled) r1 where
      "parse_each e (parse_results m) (log [Time ''complete''] w) = (r1, w')"
      "\<not> fulfilled r1" "r = Pending"
proof -
  obtain r1 w1 where p: "parse_each e (parse_results m) (log [Time ''complete''] w) = (r1, w1)"
    by fastforce
  show ?thesis
  proof (cases r1)
    case (Fulfilled x)
    with assms p show ?thesis by (intro that(1)) (auto simp: parse_def)
  next
    case (Rejected err)
    with assms p show ?thesis by (intro that(2)) (auto simp: parse_def)
  next
    case Pending
    with assms p show ?thesis by (intro that(2)) (auto simp: parse_def)
  qed
qed

lemma parse_grows: "parse e m w = (r, w') \<Longrightarrow> grows w w'"
  by (erule parse_cases) (auto dest!: parse_each_grows)

lemma parse_orderly:
  assumes "parse e m w = (r, w')"
  shows "orderly r (issued w w')"
  using assms
proof (cases rule: parse_cases)
  case (completed w1)
  with parse_each_orderly [OF completed(1)] show ?thesis by simp
next
  case (stalled r1)
  with parse_each_orderly [OF stalled(1), of RemoteError] show ?thesis by (auto simp: orderly_def)
qed

lemma getHighlights_reads_only:
  assumes "getHighlights e w = (r, w')"
  shows "store_books w' = store_books w \<and> store_highlights w' = store_highlights w
         \<and> (\<forall>c\<in>set (issued w w'). fst c = GetDocuments Highlights 9999)"
  using assms unfolding getHighlights_def request_highlights_def then_promise_def
  by (auto simp: issued_def split: option.splits if_splits)

lemma getBook_about_books:
  assumes "getBook e p w = (r, w')"
  shows "list_all about_books (issued w w')"
  using assms
proof (cases rule: getBook_cases)
  case (listing_failed r1)
  with getBooks_reads_only [of e w r1 w'] show ?thesis by (auto simp: list_all_iff)
next
  case (found books b)
  with getBooks_reads_only [of e w "Fulfilled books" w'] show ?thesis by (auto simp: list_all_iff)
next
  case (created books w1)
  from createBook_call [OF created(3)] have "list_all about_books (issued w1 w')" by auto
  moreover from getBooks_reads_only [OF created(1)] have "list_all about_books (issued w w1)"
    by (auto simp: list_all_iff)
  moreover have "issued w w' = issued w w1 @ issued w1 w'"
    using getBooks_grows [OF created(1)] createBook_grows [OF created(3)] by (rule issued_trans)
  ultimately show ?thesis by simp
qed

lemma createHighlights_failed_create:
  assumes "createHighlights e hs b w = (r, w')" and "(PostHighlight p, Failed) \<in> set (issued w w')"
  shows "r = Pending"
  using assms(1)
proof (cases rule: createHighlights_cases)
  case (listing_failed r1)
  with getHighlights_reads_only [of e w r1 w'] assms(2) show ?thesis by auto
next
  case (nothing_new existing w1)
  with getHighlights_reads_only [of e w "Fulfilled existing" w1] assms(2) show ?thesis by auto
next
  case (writes existing w1)
  from orderly_failed_last [OF createHighlights_orderly [OF assms(1)] assms(2)]
  have "\<not> fulfilled r" by simp
  moreover from createHighlights_each_orderly [OF writes(3)] have "\<forall>err. r \<noteq> Rejected err"
    by blast
  ultimately show ?thesis by (cases r) auto
qed

lemma addBookAndHighlights_failed_create:
  assumes "addBookAndHighlights e b hs w = (r, w')" and "(PostHighlight p, Failed) \<in> set (issued w w')"
  shows "r = Pending"
  using assms(1)
proof (cases rule: addBookAndHighlights_cases)
  case skipped
  with assms(2) show ?thesis by simp
next
  case (book_failed r1)
  from getBook_about_books [OF book_failed(2)] assms(2) show ?thesis
    by (auto simp: list_all_iff)
next
  case (highlights_failed doc w1 r2)
  have "issued w w' = issued w w1 @ issued w1 w'"
    using getBook_grows [OF highlights_failed(2)] createHighlights_grows [OF highlights_failed(3)]
      issued_trans [of "started e b w" w1 w'] by simp
  moreover from getBook_about_books [OF highlights_failed(2)]
  have "(PostHighlight p, Failed) \<notin> set (issued w w1)" by (auto simp: list_all_iff)
  ultimately have "(PostHighlight p, Failed) \<in> set (issued w1 w')" using assms(2) by simp
  from createHighlights_failed_create [OF highlights_failed(3) this] highlights_failed(5)
  show ?thesis by simp
next
  case (completed doc w1 w2)
  from orderly_failed_last [OF addBookAndHighlights_orderly [OF assms(1)] assms(2)] completed(4)
  show ?thesis by simp
qed

lemmas run_defs = engine_defs example_defs failing_env_def two_books_def started_def candidate_def

subsection \<open>Each listing is requested at most once\<close>


lemma reads_log [simp]: "reads c (log ls w) = reads c w"
  by (simp add: reads_def)

lemma reads_once_log [simp]: "reads_once (log ls w) = reads_once w"
  by (simp add: reads_once_def)

lemma at_most_once_log [simp]: "at_most_once (log ls w) = at_most_once w"
  by (simp add: at_most_once_def)

lemma reads_once_started [simp]: "reads_once (started e b w) = reads_once w"
  by (simp add: reads_once_def reads_def)











subsection \<open>The caches mirror the store\<close>

lemma coherent_log [simp]: "coherent (log ls w) = coherent w"
  by (simp add: coherent_def)

lemma coherent_started [simp]: "coherent (started e b w) = coherent w"
  by (simp add: coherent_def)

lemma coherent_new_process [simp]: "coherent (new_process bs hs)"
  by (simp add: coherent_def new_process_def)

lemma getBooks_coherent:
  assumes "getBooks e w = (r, w')" and "coherent w"
  shows "coherent w' \<and> (\<forall>books. r = Fulfilled books \<longrightarrow> books = store_books w')"
  using assms unfolding getBooks_def request_books_def then_promise_def
  by (auto simp: coherent_def split: option.splits if_splits)

lemma getHighlights_coherent:
  assumes "getHighlights e w = (r, w')" and "coherent w"
  shows "coherent w' \<and> (\<forall>hs. r = Fulfilled hs \<longrightarrow> hs = store_highlights w')"
  using assms unfolding getHighlights_def request_highlights_def then_promise_def
  by (auto simp: coherent_def split: option.splits if_splits)

lemma createBook_coherent:
  assumes "createBook e p w = (r, w')" and "coherent w"
  shows "coherent w'"
  using assms unfolding createBook_def Let_def post_book_def then_promise_def
  by (auto simp: coherent_def split: option.splits if_splits)

lemma createHighlight_coherent:
  assumes "createHighlight e h b w = (r, w')" and "coherent w"
  shows "coherent w'"
  using assms unfolding createHighlight_def Let_def post_highlight_def then_promise_def
  by (auto simp: coherent_def log_def split: option.splits if_splits)

lemma highlight_params_body [simp]:
  "body (highlight_params e n h b) = content h"
  "metadata_book_uuid (highlight_params e n h b) = metadata_uuid b"
  by (simp_all add: highlight_params_def Let_def)

lemma createHighlight_books:
  assumes "createHighlight e h b w = (r, w')"
  shows "store_books w' = store_books w"
  using assms unfolding createHighlight_def Let_def post_highlight_def then_promise_def
  by (auto simp: log_def split: option.splits if_splits)

lemma createHighlight_effect:
  assumes "createHighlight e h b w = (Fulfilled n, w')"
  shows "\<exists>d. store_highlights w' = store_highlights w @ [d] \<and> body d = content h
          \<and> metadata_book_uuid d = metadata_uuid b \<and> store_books w' = store_books w"
proof -
  from createHighlight_call [OF assms] obtain oc where
    oc: "issued w w' = [(PostHighlight (highlight_params e (uuids_drawn w) h b), oc)]"
      "oc = Succeeded \<longrightarrow>
         store_highlights w' = store_highlights w @ [highlight_params e (uuids_drawn w) h b]"
    by blast
  from createHighlight_orderly [OF assms] oc(1) have "oc = Succeeded"
    by (cases oc) simp_all
  with oc(2) createHighlight_books [OF assms] show ?thesis by simp
qed

lemma createHighlights_each_effect:
  "createHighlights_each e b n i hs w = (Fulfilled u, w') \<Longrightarrow> coherent w \<Longrightarrow>
   coherent w' \<and> store_books w' = store_books w
   \<and> (\<exists>ds. store_highlights w' = store_highlights w @ ds \<and> map body ds = map content hs
          \<and> (\<forall>d\<in>set ds. metadata_book_uuid d = metadata_uuid b))"
proof (induction hs arbitrary: i w)
  case Nil
  then show ?case by simp
next
  case (Cons h hs)
  obtain r1 w1 where c: "createHighlight e h b w = (r1, w1)" by fastforce
  with Cons.prems(1) obtain k where r1: "r1 = Fulfilled k" by (cases r1) auto
  with Cons.prems(1) c
  have s: "createHighlights_each e b n (Suc i) hs (log [Created i n (title b)] w1) = (Fulfilled u, w')"
    by simp
  from createHighlight_coherent [OF c Cons.prems(2)] have k: "coherent (log [Created i n (title b)] w1)"
    by simp
  from createHighlight_effect [OF c [unfolded r1]] obtain d where
    d: "store_highlights w1 = store_highlights w @ [d]" "body d = content h"
       "metadata_book_uuid d = metadata_uuid b" "store_books w1 = store_books w" by blast
  from Cons.IH [OF s k] obtain ds where
    ds: "coherent w'" "store_books w' = store_books w1"
        "store_highlights w' = store_highlights w1 @ ds" "map body ds = map content hs"
        "\<forall>d\<in>set ds. metadata_book_uuid d = metadata_uuid b" by auto
  from d ds have "store_highlights w' = store_highlights w @ (d # ds)"
    "map body (d # ds) = map content (h # hs)"
    "\<forall>x\<in>set (d # ds). metadata_book_uuid x = metadata_uuid b" by simp_all
  then have "\<exists>xs. store_highlights w' = store_highlights w @ xs
          \<and> map body xs = map content (h # hs)
          \<and> (\<forall>x\<in>set xs. metadata_book_uuid x = metadata_uuid b)"
    by (intro exI [of _ "d # ds"]) simp
  with d(4) ds(1,2) show ?case by simp
qed

lemma createHighlights_effect:
  assumes "createHighlights e hs b w = (Fulfilled u, w')" and "coherent w"
  shows "coherent w' \<and> store_books w' = store_books w
   \<and> (\<exists>ds. store_highlights w' = store_highlights w @ ds
          \<and> map body ds = map content (filterOutExistingHighlights b hs (store_highlights w))
          \<and> (\<forall>d\<in>set ds. metadata_book_uuid d = metadata_uuid b))"
  using assms(1)
proof (cases rule: createHighlights_cases)
  case (listing_failed r1)
  then show ?thesis by simp
next
  case (nothing_new existing w1)
  with getHighlights_coherent [OF nothing_new(1) assms(2)] getHighlights_reads_only [OF nothing_new(1)]
  show ?thesis by simp
next
  case (writes existing w1)
  from getHighlights_coherent [OF writes(1) assms(2)] getHighlights_reads_only [OF writes(1)]
  have k: "coherent w1" and x: "existing = store_highlights w" and s: "store_books w1 = store_books w"
    "store_highlights w1 = store_highlights w" by simp_all
  from createHighlights_each_effect [OF writes(3)] k s x show ?thesis by simp
qed

lemma find_append_Some: "find P xs = Some x \<Longrightarrow> find P (xs @ ys) = Some x"
  by (induction xs) (auto split: if_splits)

lemma find_append_None: "find P xs = None \<Longrightarrow> find P (xs @ ys) = find P ys"
  by (induction xs) (auto split: if_splits)

lemma getBook_effect:
  assumes "getBook e p w = (Fulfilled doc, w')" and "coherent w"
  shows "coherent w' \<and> store_highlights w' = store_highlights w
    \<and> find (\<lambda>x. metadata_original_title x = params_title p) (store_books w') = Some doc
    \<and> (store_books w' = store_books w
        \<or> find (\<lambda>x. metadata_original_title x = params_title p) (store_books w) = None
          \<and> store_books w' = store_books w @ [doc] \<and> metadata_uuid doc = params_uuid p)"
  using assms(1)
proof (cases rule: getBook_cases)
  case (listing_failed r1)
  then show ?thesis by simp
next
  case (found books b)
  with getBooks_coherent [OF found(1) assms(2)] getBooks_reads_only [OF found(1)]
  show ?thesis by simp
next
  case (created books w1)
  from getBooks_coherent [OF created(1) assms(2)] getBooks_reads_only [OF created(1)]
  have k: "coherent w1" and x: "books = store_books w" and s: "store_books w1 = store_books w"
    "store_highlights w1 = store_highlights w" by simp_all
  from createBook_call [OF created(3)] obtain d oc where
    d: "metadata_original_title d = params_title p" "metadata_uuid d = params_uuid p"
       "oc = Succeeded \<longrightarrow> store_books w' = store_books w1 @ [d]" "d = doc \<and> oc = Succeeded"
    by auto
  have h: "store_highlights w' = store_highlights w1"
    using created(3) unfolding createBook_def Let_def post_book_def then_promise_def
    by (auto split: option.splits if_splits)
  from created(2) x d s have "find (\<lambda>x. metadata_original_title x = params_title p) (store_books w') = Some doc"
    by (simp add: find_append_None)
  with createBook_coherent [OF created(3) k] created(2) x d s h show ?thesis by simp
qed

lemma filterOutExistingHighlights_conv:
  "filterOutExistingHighlights b newHighlights existingHighlights =
     filter (\<lambda>h. \<not> (\<exists>x\<in>set existingHighlights.
                       metadata_book_uuid x = metadata_uuid b \<and> trim (body x) = trim (content h)))
       newHighlights"
  unfolding filterOutExistingHighlights_def Let_def
  by (auto simp: filter_empty_conv image_iff intro!: filter_cong)

lemma addBookAndHighlights_effect:
  assumes "addBookAndHighlights e b hs w = (Fulfilled u, w')" and "coherent w" and "hs \<noteq> []"
  shows "coherent w'
    \<and> (\<exists>doc ds.
          find (\<lambda>x. metadata_original_title x = book_title b) (store_books w') = Some doc
          \<and> (store_books w' = store_books w
              \<or> find (\<lambda>x. metadata_original_title x = book_title b) (store_books w) = None
                \<and> store_books w' = store_books w @ [doc]
                \<and> metadata_uuid doc = uuid_v4 e (uuids_drawn w))
          \<and> store_highlights w' = store_highlights w @ ds
          \<and> map body ds = map content (filterOutExistingHighlights doc hs (store_highlights w))
          \<and> (\<forall>d\<in>set ds. metadata_book_uuid d = metadata_uuid doc))"
  using assms(1)
proof (cases rule: addBookAndHighlights_cases)
  case skipped
  with assms(3) show ?thesis by simp
next
  case (book_failed r1)
  then show ?thesis by simp
next
  case (highlights_failed doc w1 r2)
  then show ?thesis by auto
next
  case (completed doc w1 w2)
  from assms(2) have k: "coherent (started e b w)" by simp
  from getBook_effect [OF completed(2) k]
  have g: "coherent w1" "store_highlights w1 = store_highlights w"
    "find (\<lambda>x. metadata_original_title x = book_title b) (store_books w1) = Some doc"
    "store_books w1 = store_books w
        \<or> find (\<lambda>x. metadata_original_title x = book_title b) (store_books w) = None
          \<and> store_books w1 = store_books w @ [doc] \<and> metadata_uuid doc = uuid_v4 e (uuids_drawn w)"
    by (simp_all add: candidate_def)
  from createHighlights_effect [OF completed(3) g(1)] obtain ds where
    c: "coherent w2" "store_books w2 = store_books w1" "store_highlights w2 = store_highlights w1 @ ds"
       "map body ds = map content (filterOutExistingHighlights doc hs (store_highlights w1))"
       "\<forall>d\<in>set ds. metadata_book_uuid d = metadata_uuid doc" by blast
  have "\<exists>doc ds.
          find (\<lambda>x. metadata_original_title x = book_title b) (store_books w') = Some doc
          \<and> (store_books w' = store_books w
              \<or> find (\<lambda>x. metadata_original_title x = book_title b) (store_books w) = None
                \<and> store_books w' = store_books w @ [doc]
                \<and> metadata_uuid doc = uuid_v4 e (uuids_drawn w))
          \<and> store_highlights w' = store_highlights w @ ds
          \<and> map body ds = map content (filterOutExistingHighlights doc hs (store_highlights w))
          \<and> (\<forall>d\<in>set ds. metadata_book_uuid d = metadata_uuid doc)"
    using g c completed(5) by (intro exI [of _ doc] exI [of _ ds]) simp
  with c(1) completed(5) show ?thesis by simp
qed

lemma addBookAndHighlights_synced:
  assumes "addBookAndHighlights e b hs w = (Fulfilled u, w')" and "coherent w"
  shows "coherent w' \<and> synced b hs w'"
proof (cases "hs = []")
  case True
  with assms show ?thesis by (simp add: addBookAndHighlights_def synced_def)
next
  case False
  from addBookAndHighlights_effect [OF assms False] obtain doc ds where
    k: "coherent w'"
    and f: "find (\<lambda>x. metadata_original_title x = book_title b) (store_books w') = Some doc"
    and s: "store_highlights w' = store_highlights w @ ds"
    and m: "map body ds = map content (filterOutExistingHighlights doc hs (store_highlights w))"
    and d: "\<forall>d\<in>set ds. metadata_book_uuid d = metadata_uuid doc" by blast
  have "\<exists>x\<in>set (store_highlights w').
          metadata_book_uuid x = metadata_uuid doc \<and> trim (body x) = trim (content h)"
    if h: "h \<in> set hs" for h
  proof (cases "h \<in> set (filterOutExistingHighlights doc hs (store_highlights w))")
    case True
    then have "content h \<in> set (map body ds)" unfolding m by simp
    then obtain x where "x \<in> set ds" "body x = content h" by auto
    with d s show ?thesis by auto
  next
    case False
    with h obtain x where "x \<in> set (store_highlights w)"
      "metadata_book_uuid x = metadata_uuid doc" "trim (body x) = trim (content h)"
      by (auto simp: filterOutExistingHighlights_conv)
    with s show ?thesis by auto
  qed
  with f k show ?thesis by (auto simp: synced_def)
qed

lemma synced_grows:
  assumes "synced b hs w" and "grows w w'"
  shows "synced b hs w'"
proof (cases "hs = []")
  case True
  then show ?thesis by (simp add: synced_def)
next
  case False
  from assms(2) obtain bs xs where
    e: "store_books w' = store_books w @ bs" "store_highlights w' = store_highlights w @ xs"
    by (auto simp: grows_def prefix_def)
  from assms(1) False obtain doc where
    f: "find (\<lambda>x. metadata_original_title x = book_title b) (store_books w) = Some doc"
    and m: "\<forall>h\<in>set hs. \<exists>x\<in>set (store_highlights w).
              metadata_book_uuid x = metadata_uuid doc \<and> trim (body x) = trim (content h)"
    by (auto simp: synced_def)
  from f have "find (\<lambda>x. metadata_original_title x = book_title b) (store_books w') = Some doc"
    unfolding e by (rule find_append_Some)
  moreover from m have "\<forall>h\<in>set hs. \<exists>x\<in>set (store_highlights w').
              metadata_book_uuid x = metadata_uuid doc \<and> trim (body x) = trim (content h)"
    unfolding e by auto
  ultimately show ?thesis unfolding synced_def by blast
qed

lemma parse_each_synced:
  "parse_each e ts w = (Fulfilled u, w') \<Longrightarrow> coherent w \<Longrightarrow>
   \<forall>t\<in>set ts. synced (result_book t) (result_highlights t) w'"
proof (induction ts arbitrary: w)
  case Nil
  then show ?case by simp
next
  case (Cons t ts)
  obtain r1 w1 where a: "addBookAndHighlights e (result_book t) (result_highlights t) w = (r1, w1)"
    by fastforce
  with Cons.prems(1) have r1: "r1 = Fulfilled ()" by (cases r1) auto
  with Cons.prems(1) a have s: "parse_each e ts w1 = (Fulfilled u, w')" by simp
  from addBookAndHighlights_synced [OF a [unfolded r1] Cons.prems(2)]
  have k: "coherent w1" and y: "synced (result_book t) (result_highlights t) w1" by simp_all
  from synced_grows [OF y parse_each_grows [OF s]] Cons.IH [OF s k] show ?case by simp
qed

subsection \<open>A tuple that the store already holds\<close>

lemma getBook_of_stored:
  assumes "getBook e p w = (r, w')" and "coherent w"
    and "find (\<lambda>x. metadata_original_title x = params_title p) (store_books w) = Some doc"
  shows "coherent w' \<and> store_books w' = store_books w \<and> store_highlights w' = store_highlights w
    \<and> (\<forall>c\<in>set (issued w w'). fst c = GetDocuments Books 9999)
    \<and> (\<forall>d. r = Fulfilled d \<longrightarrow> d = doc)"
  using assms(1)
proof (cases rule: getBook_cases)
  case (listing_failed r1)
  with getBooks_coherent [OF listing_failed(1) assms(2)] getBooks_reads_only [OF listing_failed(1)]
  show ?thesis by auto
next
  case (found books b)
  with getBooks_coherent [OF found(1) assms(2)] getBooks_reads_only [OF found(1)] assms(3)
  show ?thesis by auto
next
  case (created books w1)
  with getBooks_coherent [OF created(1) assms(2)] getBooks_reads_only [OF created(1)] assms(3)
  show ?thesis by auto
qed

lemma createHighlights_of_stored:
  assumes "createHighlights e hs doc w = (r, w')" and "coherent w"
    and "\<forall>h\<in>set hs. \<exists>x\<in>set (store_highlights w).
           metadata_book_uuid x = metadata_uuid doc \<and> trim (body x) = trim (content h)"
  shows "coherent w' \<and> store_books w' = store_books w \<and> store_highlights w' = store_highlights w
    \<and> (\<forall>c\<in>set (issued w w'). fst c = GetDocuments Highlights 9999)"
  using assms(1)
proof (cases rule: createHighlights_cases)
  case (listing_failed r1)
  with getHighlights_coherent [OF listing_failed(1) assms(2)]
    getHighlights_reads_only [OF listing_failed(1)]
  show ?thesis by auto
next
  case (nothing_new existing w1)
  with getHighlights_coherent [OF nothing_new(1) assms(2)]
    getHighlights_reads_only [OF nothing_new(1)]
  show ?thesis by auto
next
  case (writes existing w1)
  from getHighlights_coherent [OF writes(1) assms(2)] getHighlights_reads_only [OF writes(1)]
  have "existing = store_highlights w" by simp
  with assms(3) have "filterOutExistingHighlights doc hs existing = []"
    by (auto simp: filterOutExistingHighlights_conv filter_empty_conv)
  with writes(2) show ?thesis by simp
qed

lemma addBookAndHighlights_of_synced:
  assumes "addBookAndHighlights e b hs w = (r, w')" and "coherent w" and "synced b hs w"
  shows "coherent w' \<and> store_books w' = store_books w \<and> store_highlights w' = store_highlights w
    \<and> list_all (\<lambda>c. \<not> is_create c) (issued w w')"
proof (cases "hs = []")
  case True
  with assms show ?thesis by (simp add: addBookAndHighlights_def)
next
  case False
  with assms(3) obtain doc where
    f: "find (\<lambda>x. metadata_original_title x = book_title b) (store_books w) = Some doc"
    and m: "\<forall>h\<in>set hs. \<exists>x\<in>set (store_highlights w).
              metadata_book_uuid x = metadata_uuid doc \<and> trim (body x) = trim (content h)"
    by (auto simp: synced_def)
  from assms(2) have k: "coherent (started e b w)" by simp
  from f have f': "find (\<lambda>x. metadata_original_title x = params_title (candidate e b w))
                     (store_books (started e b w)) = Some doc"
    by (simp add: candidate_def)
  have rd: "\<not> is_create c" if "fst c = GetDocuments col n" for c col n
    using that by (cases c) auto
  from assms(1) show ?thesis
  proof (cases rule: addBookAndHighlights_cases)
    case skipped
    with False show ?thesis by simp
  next
    case (book_failed r1)
    from getBook_of_stored [OF book_failed(2) k f'] show ?thesis
      by (auto simp: list_all_iff intro: rd)
  next
    case (highlights_failed d w1 r2)
    from getBook_of_stored [OF highlights_failed(2) k f']
    have g: "coherent w1" "store_books w1 = store_books w" "store_highlights w1 = store_highlights w"
      "\<forall>c\<in>set (issued w w1). fst c = GetDocuments Books 9999" "d = doc" by simp_all
    from m g have m': "\<forall>h\<in>set hs. \<exists>x\<in>set (store_highlights w1).
              metadata_book_uuid x = metadata_uuid d \<and> trim (body x) = trim (content h)" by simp
    from createHighlights_of_stored [OF highlights_failed(3) g(1) m']
    have c: "coherent w'" "store_books w' = store_books w1" "store_highlights w' = store_highlights w1"
      "\<forall>c\<in>set (issued w1 w'). fst c = GetDocuments Highlights 9999" by simp_all
    have "issued w w' = issued w w1 @ issued w1 w'"
      using getBook_grows [OF highlights_failed(2)] createHighlights_grows [OF highlights_failed(3)]
        issued_trans [of "started e b w" w1 w'] by simp
    with g c show ?thesis by (auto simp: list_all_iff intro: rd)
  next
    case (completed d w1 w2)
    from getBook_of_stored [OF completed(2) k f']
    have g: "coherent w1" "store_books w1 = store_books w" "store_highlights w1 = store_highlights w"
      "\<forall>c\<in>set (issued w w1). fst c = GetDocuments Books 9999" "d = doc" by simp_all
    from m g have m': "\<forall>h\<in>set hs. \<exists>x\<in>set (store_highlights w1).
              metadata_book_uuid x = metadata_uuid d \<and> trim (body x) = trim (content h)" by simp
    from createHighlights_of_stored [OF completed(3) g(1) m']
    have c: "coherent w2" "store_books w2 = store_books w1" "store_highlights w2 = store_highlights w1"
      "\<forall>c\<in>set (issued w1 w2). fst c = GetDocuments Highlights 9999" by simp_all
    have "issued w w2 = issued w w1 @ issued w1 w2"
      using getBook_grows [OF completed(2)] createHighlights_grows [OF completed(3)]
        issued_trans [of "started e b w" w1 w2] by simp
    with g c completed(5) show ?thesis by (auto simp: list_all_iff intro: rd)
  qed
qed

lemma synced_same_store:
  "store_books w' = store_books w \<Longrightarrow> store_highlights w' = store_highlights w \<Longrightarrow>
   synced b hs w' = synced b hs w"
  by (simp add: synced_def)

lemma parse_each_of_synced:
  "parse_each e ts w = (r, w') \<Longrightarrow> coherent w \<Longrightarrow>
   \<forall>t\<in>set ts. synced (result_book t) (result_highlights t) w \<Longrightarrow>
   store_books w' = store_books w \<and> store_highlights w' = store_highlights w
   \<and> list_all (\<lambda>c. \<not> is_create c) (issued w w')"
proof (induction ts arbitrary: w)
  case Nil
  then show ?case by simp
next
  case (Cons t ts)
  obtain r1 w1 where a: "addBookAndHighlights e (result_book t) (result_highlights t) w = (r1, w1)"
    by fastforce
  from Cons.prems(3) have "synced (result_book t) (result_highlights t) w" by simp
  from addBookAndHighlights_of_synced [OF a Cons.prems(2) this]
  have k: "coherent w1" and s: "store_books w1 = store_books w" "store_highlights w1 = store_highlights w"
    and n: "list_all (\<lambda>c. \<not> is_create c) (issued w w1)" by simp_all
  show ?case
  proof (cases r1)
    case (Fulfilled x)
    with Cons.prems(1) a have p: "parse_each e ts w1 = (r, w')" by simp
    from Cons.prems(3) s have "\<forall>t\<in>set ts. synced (result_book t) (result_highlights t) w1"
      using synced_same_store [of w1 w] by simp
    from Cons.IH [OF p k this]
    have "store_books w' = store_books w1" "store_highlights w' = store_highlights w1"
      "list_all (\<lambda>c. \<not> is_create c) (issued w1 w')" by simp_all
    moreover have "issued w w' = issued w w1 @ issued w1 w'"
      using addBookAndHighlights_grows [OF a] parse_each_grows [OF p] by (rule issued_trans)
    ultimately show ?thesis using s n by simp
  next
    case (Rejected err)
    with Cons.prems(1) a have "w' = w1" by simp
    with s n show ?thesis by simp
  next
    case Pending
    with Cons.prems(1) a have "w' = w1" by simp
    with s n show ?thesis by simp
  qed
qed

lemma parse_each_two:
  assumes "parse_each e [t1, t2] w = (Fulfilled u, w')"
  obtains w1 where
    "addBookAndHighlights e (result_book t1) (result_highlights t1) w = (Fulfilled (), w1)"
    "addBookAndHighlights e (result_book t2) (result_highlights t2) w1 = (Fulfilled (), w')"
proof -
  obtain r1 w1 where a: "addBookAndHighlights e (result_book t1) (result_highlights t1) w = (r1, w1)"
    by fastforce
  with assms have r1: "r1 = Fulfilled ()" by (cases r1) auto
  obtain r2 w2 where b: "addBookAndHighlights e (result_book t2) (result_highlights t2) w1 = (r2, w2)"
    by fastforce
  with assms a r1 have "r2 = Fulfilled ()" "w2 = w'" by (cases r2; simp)+
  with a b r1 that show ?thesis by simp
qed

subsection \<open>A run in which no remote call fails is fulfilled\<close>

lemma getBooks_completes:
  assumes "getBooks e w = (r, w')" and "\<forall>n. \<not> fails e n"
  shows "fulfilled r \<and> cache_books w' \<noteq> None"
  using assms unfolding getBooks_def request_books_def then_promise_def
  by (auto split: option.splits)

lemma getHighlights_completes:
  assumes "getHighlights e w = (r, w')" and "\<forall>n. \<not> fails e n"
  shows "fulfilled r \<and> cache_highlights w' \<noteq> None"
  using assms unfolding getHighlights_def request_highlights_def then_promise_def
  by (auto split: option.splits)

lemma createBook_completes:
  assumes "createBook e p w = (r, w')" and "\<forall>n. \<not> fails e n" and "cache_books w \<noteq> None"
  shows "fulfilled r"
  using assms unfolding createBook_def Let_def post_book_def then_promise_def
  by (auto split: option.splits)

lemma createHighlight_completes:
  assumes "createHighlight e h b w = (r, w')" and "\<forall>n. \<not> fails e n" and "cache_highlights w \<noteq> None"
  shows "fulfilled r \<and> cache_highlights w' \<noteq> None"
  using assms unfolding createHighlight_def Let_def post_highlight_def then_promise_def
  by (auto simp: log_def split: option.splits)

lemma createHighlights_each_completes:
  "createHighlights_each e b n i hs w = (r, w') \<Longrightarrow> \<forall>n. \<not> fails e n \<Longrightarrow>
   cache_highlights w \<noteq> None \<Longrightarrow> fulfilled r"
proof (induction hs arbitrary: i w)
  case Nil
  then show ?case by auto
next
  case (Cons h hs)
  obtain r1 w1 where c: "createHighlight e h b w = (r1, w1)" by fastforce
  from createHighlight_completes [OF c Cons.prems(2,3)]
  have f: "fulfilled r1" and k: "cache_highlights (log [Created i n (title b)] w1) \<noteq> None"
    by simp_all
  from f obtain x where "r1 = Fulfilled x" by (cases r1) auto
  with Cons.prems(1) c
  have "createHighlights_each e b n (Suc i) hs (log [Created i n (title b)] w1) = (r, w')"
    by simp
  from Cons.IH [OF this Cons.prems(2) k] show ?case .
qed

lemma getBook_completes:
  assumes "getBook e p w = (r, w')" and "\<forall>n. \<not> fails e n"
  shows "fulfilled r"
  using assms(1)
proof (cases rule: getBook_cases)
  case (listing_failed r1)
  with getBooks_completes [OF listing_failed(1) assms(2)] show ?thesis by simp
next
  case (found books b)
  then show ?thesis by simp
next
  case (created books w1)
  from getBooks_completes [OF created(1) assms(2)] have "cache_books w1 \<noteq> None" by simp
  with createBook_completes [OF created(3) assms(2)] show ?thesis by simp
qed

lemma createHighlights_completes:
  assumes "createHighlights e hs b w = (r, w')" and "\<forall>n. \<not> fails e n"
  shows "fulfilled r"
  using assms(1)
proof (cases rule: createHighlights_cases)
  case (listing_failed r1)
  with getHighlights_completes [OF listing_failed(1) assms(2)] show ?thesis by simp
next
  case (nothing_new existing w1)
  then show ?thesis by simp
next
  case (writes existing w1)
  from getHighlights_completes [OF writes(1) assms(2)] have "cache_highlights w1 \<noteq> None" by simp
  with createHighlights_each_completes [OF writes(3) assms(2)] show ?thesis by simp
qed

lemma addBookAndHighlights_completes:
  assumes "addBookAndHighlights e b hs w = (r, w')" and "\<forall>n. \<not> fails e n"
  shows "fulfilled r"
  using assms(1)
proof (cases rule: addBookAndHighlights_cases)
  case skipped
  then show ?thesis by simp
next
  case (book_failed r1)
  with getBook_completes [OF book_failed(2) assms(2)] show ?thesis by simp
next
  case (highlights_failed doc w1 r2)
  with createHighlights_completes [OF highlights_failed(3) assms(2)] show ?thesis by simp
next
  case (completed doc w1 w2)
  then show ?thesis by simp
qed

lemma parse_each_completes:
  "parse_each e ts w = (r, w') \<Longrightarrow> \<forall>n. \<not> fails e n \<Longrightarrow> fulfilled r"
proof (induction ts arbitrary: w)
  case Nil
  then show ?case by auto
next
  case (Cons t ts)
  obtain r1 w1 where a: "addBookAndHighlights e (result_book t) (result_highlights t) w = (r1, w1)"
    by fastforce
  from addBookAndHighlights_completes [OF a Cons.prems(2)] obtain x where "r1 = Fulfilled x"
    by (cases r1) auto
  with Cons.prems(1) a have "parse_each e ts w1 = (r, w')" by simp
  from Cons.IH [OF this Cons.prems(2)] show ?case .
qed

lemma parse_completes:
  assumes "parse e m w = (r, w')" and "\<forall>n. \<not> fails e n"
  shows "r = Fulfilled ()"
  using assms(1)
proof (cases rule: parse_cases)
  case (completed w1)
  then show ?thesis by simp
next
  case (stalled r1)
  with parse_each_completes [OF stalled(1) assms(2)] show ?thesis by simp
qed

subsection \<open>What is memoized stays memoized\<close>

lemma memoized_refl [simp]: "memoized w w"
  by (simp add: memoized_def)


lemma memoized_log [simp]: "memoized w (log ls w') = memoized w w'" "memoized (log ls w) w' = memoized w w'"
  by (simp_all add: memoized_def)

lemma reads_started [simp]: "reads c (started e b w) = reads c w"
  by (simp add: reads_def)

lemma memoized_started [simp]:
  "memoized w (started e b w') = memoized w w'" "memoized (started e b w) w' = memoized w w'"
  by (simp_all add: memoized_def)












subsection \<open>No listing is received twice\<close>

lemma fulfilled_reads_log [simp]: "fulfilled_reads c (log ls w) = fulfilled_reads c w"
  by (simp add: fulfilled_reads_def)

lemma received_once_log [simp]: "received_once (log ls w) = received_once w"
  by (simp add: received_once_def)

lemma received_once_started [simp]: "received_once (started e b w) = received_once w"
  by (simp add: received_once_def fulfilled_reads_def)












section \<open>The claims\<close>

text \<open>
  C9. A tuple whose highlight list is empty is skipped: \<open>addBookAndHighlights\<close> is
  fulfilled at once and the state is the one it started from, so no remote call was
  issued (no listing, no create, for neither collection) and both caches are as they were;
  the driver goes on with the next tuple from that same state.
\<close>

theorem empty_tuple_is_skipped:
  "addBookAndHighlights e b [] w = (Fulfilled (), w)
   \<and> issued w (snd (addBookAndHighlights e b [] w)) = []
   \<and> cache_books (snd (addBookAndHighlights e b [] w)) = cache_books w
   \<and> cache_highlights (snd (addBookAndHighlights e b [] w)) = cache_highlights w
   \<and> parse_each e (\<lparr>result_book = b, result_highlights = []\<rparr> # rest) w = parse_each e rest w"
  by (simp add: addBookAndHighlights_def)

text \<open>
  C10. The document \<open>createHighlight\<close> posts has \<open>metadata.location\<close> null when the
  candidate's location is absent or falsy (undefined, null, false, the empty string, a zero
  or \<open>NaN\<close>), and the string \<open>String(location)\<close> for every other location: the string
  itself, \<open>true\<close>, or the number as the run time writes it.
\<close>

theorem falsy_location_is_null:
  assumes "createHighlight e h b w = (r, w')"
  shows "\<exists>doc oc. issued w w' = [(PostHighlight doc, oc)]
           \<and> (oc = Succeeded \<longrightarrow> store_highlights w' = store_highlights w @ [doc])
           \<and> metadata_location doc =
               (if location h \<in> {JsUndefined, JsNull, JsBool False, JsString [], JsNumber NaN}
                   \<or> (\<exists>neg ex. location h = JsNumber (Finite neg 0 ex))
                then None
                else Some (js_String (number_to_string e) (location h)))"
proof -
  let ?doc = "highlight_params e (uuids_drawn w) h b"
  have "metadata_location ?doc =
          (if location h \<in> {JsUndefined, JsNull, JsBool False, JsString [], JsNumber NaN}
              \<or> (\<exists>neg ex. location h = JsNumber (Finite neg 0 ex))
           then None
           else Some (js_String (number_to_string e) (location h)))"
    unfolding highlight_params_def Let_def truthy_iff by simp
  with createHighlight_call [OF assms] show ?thesis by blast
qed

theorem falsy_location_is_null_witness:
  "(\<exists>doc oc. issued (cached (new_process [foo_doc] []))
        (snd (createHighlight example_env ((quote ''q'')\<lparr>location := JsNumber (Finite False 0 0)\<rparr>) foo_doc
               (cached (new_process [foo_doc] [])))) = [(PostHighlight doc, oc)]
      \<and> metadata_location doc = None)
   \<and> (\<exists>doc oc. issued (cached (new_process [foo_doc] []))
        (snd (createHighlight example_env ((quote ''q'')\<lparr>location := JsNumber NaN\<rparr>) foo_doc
               (cached (new_process [foo_doc] [])))) = [(PostHighlight doc, oc)]
      \<and> metadata_location doc = None)
   \<and> (\<exists>doc oc. issued (cached (new_process [foo_doc] []))
        (snd (createHighlight example_env ((quote ''q'')\<lparr>location := JsNumber (Finite False 42 0)\<rparr>) foo_doc
               (cached (new_process [foo_doc] [])))) = [(PostHighlight doc, oc)]
      \<and> metadata_location doc = Some ''42'')"
proof -
  have d: "number_to_string example_env (Finite False 42 0) = ''42''"
    by (simp add: example_env_def integer_to_string_def decimal.simps digit_char_def)
  show ?thesis
    using falsy_location_is_null [where e = example_env
        and h = "(quote ''q'')\<lparr>location := JsNumber (Finite False 0 0)\<rparr>"
        and b = foo_doc and w = "cached (new_process [foo_doc] [])", OF prod.collapse [symmetric]]
      falsy_location_is_null [where e = example_env
        and h = "(quote ''q'')\<lparr>location := JsNumber NaN\<rparr>"
        and b = foo_doc and w = "cached (new_process [foo_doc] [])", OF prod.collapse [symmetric]]
      falsy_location_is_null [where e = example_env
        and h = "(quote ''q'')\<lparr>location := JsNumber (Finite False 42 0)\<rparr>"
        and b = foo_doc and w = "cached (new_process [foo_doc] [])", OF prod.collapse [symmetric]]
    by (auto simp: quote_def d)
qed

text \<open>
  C5. The deduplicator removes a candidate exactly when some existing highlight of the
  same book (same \<open>metadata.book_uuid\<close> as the book's \<open>metadata.uuid\<close>) has a body that
  is, after trimming both, the same string as the candidate's content. Nothing else
  matches (a different punctuation mark keeps the candidate), and the survivors keep their
  order: the result is the candidate list filtered by that test.
\<close>

theorem dedup_is_exact_match_after_trim:
  "filterOutExistingHighlights b newHighlights existingHighlights =
     filter (\<lambda>h. \<not> (\<exists>x\<in>set existingHighlights.
                       metadata_book_uuid x = metadata_uuid b \<and> trim (body x) = trim (content h)))
       newHighlights"
  unfolding filterOutExistingHighlights_def Let_def
  by (auto simp: filter_empty_conv image_iff intro!: filter_cong)

theorem dedup_is_exact_match_after_trim_witness:
  "filterOutExistingHighlights foo_doc [quote ''Hello world.'', quote ''Hello world!'']
     [stored ''uuid-foo'' ''  Hello world.  ''] = [quote ''Hello world!'']"
  using dedup_is_exact_match_after_trim [of foo_doc "[quote ''Hello world.'', quote ''Hello world!'']"
      "[stored ''uuid-foo'' ''  Hello world.  '']"]
  by (simp add: example_defs trim_def is_white_space_def)

text \<open>
  C4. Once the listing of books is there, \<open>getBook\<close> returns the first document whose
  \<open>metadata.original_title\<close> is the candidate's title, as it is stored and in the state
  the listing left (so with no create, and whatever uuid the candidate carried); only when
  no document has that original title does it issue a create, of a document with the
  candidate's title, original title and uuid.
\<close>

theorem getBook_returns_first_match_or_creates:
  assumes "getBooks e w = (Fulfilled books, w1)" and "getBook e p w = (r, w')"
  shows "store_books w1 = store_books w \<and> (\<forall>c\<in>set (issued w w1). fst c = GetDocuments Books 9999)
    \<and> (case find (\<lambda>x. metadata_original_title x = params_title p) books of
          Some b \<Rightarrow>
            r = Fulfilled b \<and> w' = w1
            \<and> (\<exists>i<length books. books ! i = b \<and> metadata_original_title b = params_title p
                  \<and> (\<forall>j<i. metadata_original_title (books ! j) \<noteq> params_title p))
            \<and> (\<forall>u. getBook e (p\<lparr>params_uuid := u\<rparr>) w = (Fulfilled b, w1))
        | None \<Rightarrow>
            (\<forall>x\<in>set books. metadata_original_title x \<noteq> params_title p)
            \<and> (\<exists>doc oc. issued w1 w' = [(PostBook doc, oc)]
                  \<and> title doc = params_title p \<and> metadata_original_title doc = params_title p
                  \<and> metadata_uuid doc = params_uuid p
                  \<and> (oc = Succeeded \<longrightarrow> store_books w' = store_books w @ [doc])
                  \<and> (\<forall>x. r = Fulfilled x \<longrightarrow> x = doc \<and> oc = Succeeded)))"
proof -
  have ro: "store_books w1 = store_books w \<and> (\<forall>c\<in>set (issued w w1). fst c = GetDocuments Books 9999)"
    using getBooks_reads_only [OF assms(1)] by simp
  show ?thesis
  proof (cases "find (\<lambda>x. metadata_original_title x = params_title p) books")
    case None
    then have g: "createBook e p w1 = (r, w')"
      using assms by (simp add: getBook_def then_promise_def)
    have n: "\<forall>x\<in>set books. metadata_original_title x \<noteq> params_title p"
      using None by (simp add: find_None_iff)
    from createBook_call [OF g] ro None n show ?thesis by auto
  next
    case (Some b)
    then have g: "r = Fulfilled b \<and> w' = w1"
      using assms by (simp add: getBook_def then_promise_def)
    have u: "getBook e (p\<lparr>params_uuid := u\<rparr>) w = (Fulfilled b, w1)" for u
      using assms(1) Some by (simp add: getBook_def then_promise_def)
    from Some have "\<exists>i<length books. books ! i = b \<and> metadata_original_title b = params_title p
                  \<and> (\<forall>j<i. metadata_original_title (books ! j) \<noteq> params_title p)"
      by (auto simp: find_Some_iff)
    with ro Some g u show ?thesis by simp
  qed
qed

theorem getBook_returns_first_match_or_creates_witness:
  "fst (getBook example_env foo_params (new_process [foo_doc] [])) = Fulfilled foo_doc
   \<and> title foo_doc \<noteq> params_title foo_params
   \<and> store_books (snd (getBook example_env foo_params (new_process [foo_doc] []))) = [foo_doc]"
proof -
  have g: "getBooks example_env (new_process [foo_doc] [])
           = (Fulfilled [foo_doc],
              (new_process [foo_doc] [])\<lparr>calls := [(GetDocuments Books 9999, Succeeded)],
                                         cache_books := Some [foo_doc]\<rparr>)"
    by (simp add: engine_defs example_defs)
  show ?thesis
    using getBook_returns_first_match_or_creates [OF g prod.collapse [symmetric], of foo_params]
    by (simp add: foo_params_def foo_doc_def new_process_def)
qed

text \<open>
  C7, as amended. \<open>createHighlight\<close> issues its create whatever the date is, and the
  create is fulfilled whenever the remote call succeeds. With a non-empty date that the
  date library accepts, the posted document carries the normalized instant in
  \<open>metadata.highlighted_on\<close> and nothing is logged; with a non-empty date that it rejects,
  the field is left out and the date is logged; with no date or the empty string, the
  field is left out and nothing is logged. With the date library of the spec,
  "March 3, 2020" and "2020-03-03T00:00:00Z" are normalized to the same instant, and
  "not a date" is left out and logged.
\<close>

theorem date_is_normalized_or_left_out:
  assumes "createHighlight e h b w = (r, w')"
  shows "\<exists>doc oc. issued w w' = [(PostHighlight doc, oc)]
           \<and> (oc = Succeeded \<longleftrightarrow> \<not> fails e (length (calls w)))
           \<and> (oc = Succeeded \<longrightarrow> store_highlights w' = store_highlights w @ [doc])
           \<and> (oc = Succeeded \<and> cache_highlights w \<noteq> None \<longrightarrow> (\<exists>n. r = Fulfilled n))
           \<and> (case date h of
                 None \<Rightarrow> metadata_highlighted_on doc = None \<and> console w' = console w
               | Some d \<Rightarrow>
                   if d = [] then metadata_highlighted_on doc = None \<and> console w' = console w
                   else (case moment e d of
                           Some t \<Rightarrow> metadata_highlighted_on doc = Some t \<and> console w' = console w
                         | None \<Rightarrow> metadata_highlighted_on doc = None
                                    \<and> console w' = console w @ [InvalidDate d]))
           \<and> (moment e = normalize_date \<longrightarrow>
                 (date h = Some ''March 3, 2020'' \<or> date h = Some ''2020-03-03T00:00:00Z'' \<longrightarrow>
                    metadata_highlighted_on doc = Some ''2020-03-03T00:00:00.000Z''
                    \<and> console w' = console w)
                 \<and> (date h = Some ''not a date'' \<longrightarrow>
                    metadata_highlighted_on doc = None
                    \<and> console w' = console w @ [InvalidDate ''not a date'']))"
proof -
  let ?doc = "highlight_params e (uuids_drawn w) h b"
  have c: "console w' = console w @ invalid_date_log e h"
    using assms unfolding createHighlight_def Let_def post_highlight_def then_promise_def
    by (auto simp: log_def split: if_splits option.splits)
  have o: "\<exists>oc. issued w w' = [(PostHighlight ?doc, oc)]
           \<and> (oc = Succeeded \<longleftrightarrow> \<not> fails e (length (calls w)))
           \<and> (oc = Succeeded \<longrightarrow> store_highlights w' = store_highlights w @ [?doc])
           \<and> (oc = Succeeded \<and> cache_highlights w \<noteq> None \<longrightarrow> (\<exists>n. r = Fulfilled n))"
    using assms unfolding createHighlight_def Let_def post_highlight_def then_promise_def
    by (auto simp: issued_def log_def split: if_splits option.splits)
  have d: "(case date h of
                 None \<Rightarrow> metadata_highlighted_on ?doc = None \<and> console w' = console w
               | Some d \<Rightarrow>
                   if d = [] then metadata_highlighted_on ?doc = None \<and> console w' = console w
                   else (case moment e d of
                           Some t \<Rightarrow> metadata_highlighted_on ?doc = Some t \<and> console w' = console w
                         | None \<Rightarrow> metadata_highlighted_on ?doc = None
                                    \<and> console w' = console w @ [InvalidDate d]))"
    unfolding c highlight_params_highlighted_on
    by (simp add: invalid_date_log_def split: option.splits)
  have n: "moment e = normalize_date \<longrightarrow>
                 (date h = Some ''March 3, 2020'' \<or> date h = Some ''2020-03-03T00:00:00Z'' \<longrightarrow>
                    metadata_highlighted_on ?doc = Some ''2020-03-03T00:00:00.000Z''
                    \<and> console w' = console w)
                 \<and> (date h = Some ''not a date'' \<longrightarrow>
                    metadata_highlighted_on ?doc = None
                    \<and> console w' = console w @ [InvalidDate ''not a date''])"
    unfolding c highlight_params_highlighted_on
    by (auto simp: invalid_date_log_def normalize_date_examples)
  from o d n show ?thesis by blast
qed

theorem date_is_normalized_or_left_out_witness:
  "(\<exists>doc. issued (cached (new_process [foo_doc] []))
        (snd (createHighlight example_env ((quote ''q'')\<lparr>date := Some ''2020-03-03T00:00:00Z''\<rparr>) foo_doc
               (cached (new_process [foo_doc] [])))) = [(PostHighlight doc, Succeeded)]
      \<and> metadata_highlighted_on doc = Some ''2020-03-03T00:00:00.000Z'')
   \<and> (\<exists>doc. issued (cached (new_process [foo_doc] []))
        (snd (createHighlight example_env ((quote ''q'')\<lparr>date := Some ''March 3, 2020''\<rparr>) foo_doc
               (cached (new_process [foo_doc] [])))) = [(PostHighlight doc, Succeeded)]
      \<and> metadata_highlighted_on doc = Some ''2020-03-03T00:00:00.000Z'')
   \<and> (\<exists>doc. issued (cached (new_process [foo_doc] []))
        (snd (createHighlight example_env ((quote ''q'')\<lparr>date := Some ''not a date''\<rparr>) foo_doc
               (cached (new_process [foo_doc] [])))) = [(PostHighlight doc, Succeeded)]
      \<and> metadata_highlighted_on doc = None)
   \<and> console (snd (createHighlight example_env ((quote ''q'')\<lparr>date := Some ''not a date''\<rparr>) foo_doc
               (cached (new_process [foo_doc] [])))) = [InvalidDate ''not a date'']"
proof -
  have m: "moment example_env = normalize_date"
    by (simp add: example_env_def)
  show ?thesis
    using date_is_normalized_or_left_out [where e = example_env
          and h = "(quote ''q'')\<lparr>date := Some ''2020-03-03T00:00:00Z''\<rparr>"
          and b = foo_doc and w = "cached (new_process [foo_doc] [])", OF prod.collapse [symmetric]]
        date_is_normalized_or_left_out [where e = example_env
          and h = "(quote ''q'')\<lparr>date := Some ''March 3, 2020''\<rparr>"
          and b = foo_doc and w = "cached (new_process [foo_doc] [])", OF prod.collapse [symmetric]]
        date_is_normalized_or_left_out [where e = example_env
          and h = "(quote ''q'')\<lparr>date := Some ''not a date''\<rparr>"
          and b = foo_doc and w = "cached (new_process [foo_doc] [])", OF prod.collapse [symmetric]]
    by (auto simp: quote_def m normalize_date_examples example_env_def cached_def new_process_def)
qed

text \<open>
  C7 as it is worded fails for the empty string: it is a date string that does not parse,
  the record is created without \<open>highlighted_on\<close>, but nothing is logged.
\<close>

theorem empty_date_is_not_logged:
  "moment example_env [] = None
   \<and> fst (createHighlight example_env ((quote ''q'')\<lparr>date := Some []\<rparr>) foo_doc
          (cached (new_process [foo_doc] []))) = Fulfilled 1
   \<and> console (snd (createHighlight example_env ((quote ''q'')\<lparr>date := Some []\<rparr>) foo_doc
          (cached (new_process [foo_doc] [])))) = []
   \<and> metadata_highlighted_on (last (store_highlights
          (snd (createHighlight example_env ((quote ''q'')\<lparr>date := Some []\<rparr>) foo_doc
             (cached (new_process [foo_doc] []))))))
       = None"
  by (simp add: createHighlight_def post_highlight_def then_promise_def log_def Let_def
      invalid_date_log_def cached_def new_process_def quote_def example_env_def
      highlight_params_highlighted_on normalize_date_examples)

text \<open>
  C2, as amended. When a create issued by the writer fails, it is the last remote call of
  the run: every call before it succeeded and none follows, so no remaining candidate of
  the batch is written and no later tuple is touched. The failure is not passed on: the
  promise of \<open>createHighlights\<close> stays pending (it is neither fulfilled nor rejected), and
  with it the promise of \<open>addBookAndHighlights\<close> and the promise of \<open>parse\<close>.
\<close>

theorem failed_create_leaves_the_run_pending:
  "(createHighlights e hs doc w = (r, w') \<and> (PostHighlight p, Failed) \<in> set (issued w w')
      \<longrightarrow> r = Pending \<and> list_all succeeded (butlast (issued w w'))
          \<and> last (issued w w') = (PostHighlight p, Failed))
   \<and> (addBookAndHighlights e b hs w = (r, w') \<and> (PostHighlight p, Failed) \<in> set (issued w w')
      \<longrightarrow> r = Pending \<and> list_all succeeded (butlast (issued w w'))
          \<and> last (issued w w') = (PostHighlight p, Failed))
   \<and> (parse e m w = (r, w') \<and> (PostHighlight p, Failed) \<in> set (issued w w')
      \<longrightarrow> r = Pending \<and> list_all succeeded (butlast (issued w w'))
          \<and> last (issued w w') = (PostHighlight p, Failed))"
proof (intro conjI impI; elim conjE)
  assume a: "createHighlights e hs doc w = (r, w')" "(PostHighlight p, Failed) \<in> set (issued w w')"
  from createHighlights_orderly [OF a(1)] have "list_all succeeded (butlast (issued w w'))"
    by (simp add: orderly_def)
  with createHighlights_failed_create [OF a] orderly_failed_last [OF createHighlights_orderly [OF a(1)] a(2)]
  show "r = Pending" "list_all succeeded (butlast (issued w w'))"
    "last (issued w w') = (PostHighlight p, Failed)" by simp_all
next
  assume a: "addBookAndHighlights e b hs w = (r, w')" "(PostHighlight p, Failed) \<in> set (issued w w')"
  from addBookAndHighlights_orderly [OF a(1)] have "list_all succeeded (butlast (issued w w'))"
    by (simp add: orderly_def)
  with addBookAndHighlights_failed_create [OF a]
    orderly_failed_last [OF addBookAndHighlights_orderly [OF a(1)] a(2)]
  show "r = Pending" "list_all succeeded (butlast (issued w w'))"
    "last (issued w w') = (PostHighlight p, Failed)" by simp_all
next
  assume a: "parse e m w = (r, w')" "(PostHighlight p, Failed) \<in> set (issued w w')"
  note o = parse_orderly [OF a(1)]
  from o have b: "list_all succeeded (butlast (issued w w'))" by (simp add: orderly_def)
  from orderly_failed_last [OF o a(2)] have nf: "\<not> fulfilled r"
    and l: "last (issued w w') = (PostHighlight p, Failed)" by simp_all
  from a(1) nf have "r = Pending" by (cases rule: parse_cases) auto
  with b l show "r = Pending" "list_all succeeded (butlast (issued w w'))"
    "last (issued w w') = (PostHighlight p, Failed)" by simp_all
qed

theorem failed_create_leaves_the_run_pending_witness:
  "(PostHighlight ((stored ''uuid-'' ''Same quote.'')\<lparr>doc_title := ''Foo: Same quote.'', path := ''Foo-uuid-x''\<rparr>), Failed)
     \<in> set (issued (new_process [] []) (snd (parse (failing_env 3) two_books (new_process [] []))))
   \<and> fst (parse (failing_env 3) two_books (new_process [] [])) = Pending
   \<and> last (issued (new_process [] []) (snd (parse (failing_env 3) two_books (new_process [] []))))
       = (PostHighlight ((stored ''uuid-'' ''Same quote.'')\<lparr>doc_title := ''Foo: Same quote.'', path := ''Foo-uuid-x''\<rparr>), Failed)"
proof -
  have m: "(PostHighlight ((stored ''uuid-'' ''Same quote.'')\<lparr>doc_title := ''Foo: Same quote.'', path := ''Foo-uuid-x''\<rparr>), Failed)
     \<in> set (issued (new_process [] []) (snd (parse (failing_env 3) two_books (new_process [] []))))"
    by (simp add: run_defs)
  from failed_create_leaves_the_run_pending
    [where e = "failing_env 3" and m = two_books and w = "new_process [] []"
       and r = "fst (parse (failing_env 3) two_books (new_process [] []))"
       and w' = "snd (parse (failing_env 3) two_books (new_process [] []))"
       and p = "(stored ''uuid-'' ''Same quote.'')\<lparr>doc_title := ''Foo: Same quote.'', path := ''Foo-uuid-x''\<rparr>"]
    m
  show ?thesis by simp
qed

text \<open>
  C2 as it is worded says that the error reaches the driver. It does not: with the create
  of the first of two candidates failing, the writer's promise is pending, not rejected,
  and so are the driver's promises.
\<close>

theorem failed_create_is_not_passed_on:
  "fst (createHighlights (failing_env 1) [quote ''a'', quote ''b''] foo_doc (new_process [foo_doc] []))
     = Pending
   \<and> fst (createHighlights (failing_env 1) [quote ''a'', quote ''b''] foo_doc (new_process [foo_doc] []))
     \<noteq> Rejected RemoteError
   \<and> map (\<lambda>c. (is_create c, snd c))
        (calls (snd (createHighlights (failing_env 1) [quote ''a'', quote ''b''] foo_doc
                       (new_process [foo_doc] [])))) = [(False, Succeeded), (True, Failed)]
   \<and> fst (addBookAndHighlights (failing_env 3) foo [quote ''Same quote.''] (new_process [] []))
     = Pending
   \<and> fst (parse (failing_env 3) two_books (new_process [] [])) = Pending"
  by (simp add: run_defs)

text \<open>
  C6. If the tuples before \<open>t\<close> were synchronized and a remote call fails while \<open>t\<close> is
  processed (the listing or the create of its book, the listing of the highlights or the
  create of one), the run ends in the very state in which \<open>t\<close> stopped: the failed call is
  the last remote call ever issued, so none is issued for any later tuple.
\<close>

theorem later_tuples_are_never_attempted:
  assumes "parse_results m = pre @ t # post"
    and "parse_each e pre (log [Time ''complete''] w) = (Fulfilled (), w0)"
    and "addBookAndHighlights e (result_book t) (result_highlights t) w0 = (r, w1)"
    and "\<exists>c\<in>set (issued w0 w1). \<not> succeeded c"
  shows "parse e m w = (Pending, w1) \<and> \<not> succeeded (last (calls w1))
         \<and> issued w1 (snd (parse e m w)) = []"
proof -
  from assms(4) obtain c where c: "c \<in> set (issued w0 w1)" "\<not> succeeded c" by blast
  from orderly_failed_last [OF addBookAndHighlights_orderly [OF assms(3)] c]
  have nf: "\<not> fulfilled r" and ne: "issued w0 w1 \<noteq> []" and l: "last (issued w0 w1) = c"
    by simp_all
  from nf assms(3) have "parse_each e (t # post) w0 = (Pending, w1)" by (cases r) auto
  with parse_each_append [OF assms(2), of "t # post"] assms(1)
  have "parse_each e (parse_results m) (log [Time ''complete''] w) = (Pending, w1)" by simp
  then have p: "parse e m w = (Pending, w1)" by (simp add: parse_def)
  from addBookAndHighlights_grows [OF assms(3)] have "calls w1 = calls w0 @ issued w0 w1"
    by (rule grows_calls)
  with ne l c(2) have "\<not> succeeded (last (calls w1))" by simp
  with p show ?thesis by simp
qed

theorem later_tuples_are_never_attempted_witness:
  "parse (failing_env 3) two_books (new_process [] [])
     = (Pending, snd (addBookAndHighlights (failing_env 3) foo [quote ''Same quote.'']
                        (log [Time ''complete''] (new_process [] []))))
   \<and> map snd (calls (snd (parse (failing_env 3) two_books (new_process [] []))))
       = [Succeeded, Succeeded, Succeeded, Failed]"
proof -
  have r: "parse_results two_books =
      [] @ \<lparr>result_book = foo, result_highlights = [quote ''Same quote.'']\<rparr>
         # [\<lparr>result_book = bar, result_highlights = [quote ''Same quote.'']\<rparr>]"
    by (simp add: parse_results_def two_books_def)
  have p: "parse_each (failing_env 3) [] (log [Time ''complete''] (new_process [] []))
      = (Fulfilled (), log [Time ''complete''] (new_process [] []))"
    by simp
  have f: "\<exists>c\<in>set (issued (log [Time ''complete''] (new_process [] []))
              (snd (addBookAndHighlights (failing_env 3) foo [quote ''Same quote.'']
                     (log [Time ''complete''] (new_process [] []))))). \<not> succeeded c"
    by (simp add: run_defs)
  have a: "addBookAndHighlights (failing_env 3)
             (result_book \<lparr>result_book = foo, result_highlights = [quote ''Same quote.'']\<rparr>)
             (result_highlights \<lparr>result_book = foo, result_highlights = [quote ''Same quote.'']\<rparr>)
             (log [Time ''complete''] (new_process [] []))
           = (fst (addBookAndHighlights (failing_env 3) foo [quote ''Same quote.'']
                     (log [Time ''complete''] (new_process [] []))),
              snd (addBookAndHighlights (failing_env 3) foo [quote ''Same quote.'']
                     (log [Time ''complete''] (new_process [] []))))"
    by simp
  from later_tuples_are_never_attempted [OF r p a f]
  have "parse (failing_env 3) two_books (new_process [] [])
     = (Pending, snd (addBookAndHighlights (failing_env 3) foo [quote ''Same quote.'']
                        (log [Time ''complete''] (new_process [] []))))" by simp
  moreover have "map snd (calls (snd (addBookAndHighlights (failing_env 3) foo [quote ''Same quote.'']
                        (log [Time ''complete''] (new_process [] []))))) = [Succeeded, Succeeded, Succeeded, Failed]"
    by (simp add: run_defs)
  ultimately show ?thesis by simp
qed




text \<open>
  C1. Take a run of \<open>parse\<close> in a new process that was fulfilled, and submit any of its
  tuples again (one of them, or the whole export) in a second new process, against the
  store as the first run left it. Whatever happens to the remote calls of the second run,
  it creates no book and no highlight: both collections are as the first run left them
  and no create was issued.
\<close>

theorem resubmission_creates_nothing:
  assumes "parse e1 m1 (new_process books highlights) = (Fulfilled (), w1)"
    and "set (parse_results m2) \<subseteq> set (parse_results m1)"
    and "parse e2 m2 (new_process (store_books w1) (store_highlights w1)) = (r, w2)"
  shows "store_books w2 = store_books w1 \<and> store_highlights w2 = store_highlights w1
    \<and> list_all (\<lambda>c. \<not> is_create c) (calls w2)"
proof -
  from assms(1) obtain v1 where
    p1: "parse_each e1 (parse_results m1) (log [Time ''complete''] (new_process books highlights))
           = (Fulfilled (), v1)"
    and w1: "w1 = log [TimeEnd ''complete''] v1"
    by (cases rule: parse_cases) auto
  have "\<forall>t\<in>set (parse_results m1). synced (result_book t) (result_highlights t) v1"
    using p1 by (rule parse_each_synced) simp
  with assms(2) w1
  have y: "\<forall>t\<in>set (parse_results m2). synced (result_book t) (result_highlights t)
             (log [Time ''complete''] (new_process (store_books w1) (store_highlights w1)))"
    by (auto simp: synced_def new_process_def log_def)
  have k: "coherent (log [Time ''complete''] (new_process (store_books w1) (store_highlights w1)))"
    by simp
  obtain r2 v2 where
    p2: "parse_each e2 (parse_results m2)
           (log [Time ''complete''] (new_process (store_books w1) (store_highlights w1))) = (r2, v2)"
    by fastforce
  from parse_each_of_synced [OF p2 k y]
  have s: "store_books v2 = store_books w1" "store_highlights v2 = store_highlights w1"
    "list_all (\<lambda>c. \<not> is_create c) (calls v2)"
    by (simp_all add: new_process_def issued_def log_def)
  from assms(3) p2 have "w2 = v2 \<or> w2 = log [TimeEnd ''complete''] v2"
    by (cases rule: parse_cases) auto
  with s show ?thesis by auto
qed

theorem resubmission_creates_nothing_witness:
  "length (store_books (snd (parse example_env two_books (new_process [] [])))) = 2
   \<and> length (store_highlights (snd (parse example_env two_books (new_process [] [])))) = 2
   \<and> store_books (snd (parse (failing_env 7) two_books
         (new_process (store_books (snd (parse example_env two_books (new_process [] []))))
            (store_highlights (snd (parse example_env two_books (new_process [] [])))))))
       = store_books (snd (parse example_env two_books (new_process [] [])))
   \<and> store_highlights (snd (parse (failing_env 7) two_books
         (new_process (store_books (snd (parse example_env two_books (new_process [] []))))
            (store_highlights (snd (parse example_env two_books (new_process [] [])))))))
       = store_highlights (snd (parse example_env two_books (new_process [] [])))"
proof -
  have f: "parse example_env two_books (new_process [] [])
           = (Fulfilled (), snd (parse example_env two_books (new_process [] [])))"
    by (simp add: run_defs)
  have n: "length (store_books (snd (parse example_env two_books (new_process [] [])))) = 2
   \<and> length (store_highlights (snd (parse example_env two_books (new_process [] [])))) = 2"
    by (simp add: run_defs)
  from resubmission_creates_nothing [OF f subset_refl prod.collapse [symmetric], of "failing_env 7"] n
  show ?thesis by simp
qed

text \<open>
  C3. The deduplicator looks only at the existing highlights whose
  \<open>metadata.book_uuid\<close> is the resolved book's \<open>metadata.uuid\<close>: two listings with the
  same highlights of that book give the same result. Consequently, when a run in which no
  remote call fails synchronizes a highlight for each of two books (stored under different
  uuids) and the two highlights have the same trimmed text, which no stored highlight had
  before, the run is fulfilled and both are created, each under its own book.
\<close>

theorem dedup_is_scoped_to_the_book:
  "(filter (\<lambda>x. metadata_book_uuid x = metadata_uuid doc) existing
      = filter (\<lambda>x. metadata_book_uuid x = metadata_uuid doc) existing'
    \<longrightarrow> filterOutExistingHighlights doc new existing = filterOutExistingHighlights doc new existing')
   \<and> (parse_results m = [\<lparr>result_book = a, result_highlights = [ha]\<rparr>,
                          \<lparr>result_book = b, result_highlights = [hb]\<rparr>]
      \<and> (\<forall>n. \<not> fails e n)
      \<and> parse e m (new_process books highlights) = (r, w')
      \<and> find (\<lambda>x. metadata_original_title x = book_title a) (store_books w') = Some da
      \<and> find (\<lambda>x. metadata_original_title x = book_title b) (store_books w') = Some db
      \<and> metadata_uuid da \<noteq> metadata_uuid db
      \<and> trim (content ha) = trim (content hb)
      \<and> (\<forall>x\<in>set highlights. trim (body x) \<noteq> trim (content ha))
    \<longrightarrow> r = Fulfilled ()
        \<and> (\<exists>xa xb. store_highlights w' = highlights @ [xa, xb]
           \<and> body xa = content ha \<and> metadata_book_uuid xa = metadata_uuid da
           \<and> body xb = content hb \<and> metadata_book_uuid xb = metadata_uuid db))"
proof (rule conjI; rule impI)
  assume "filter (\<lambda>x. metadata_book_uuid x = metadata_uuid doc) existing
      = filter (\<lambda>x. metadata_book_uuid x = metadata_uuid doc) existing'"
  then have "set (filter (\<lambda>x. metadata_book_uuid x = metadata_uuid doc) existing)
      = set (filter (\<lambda>x. metadata_book_uuid x = metadata_uuid doc) existing')" by simp
  then have "(\<exists>x\<in>set existing. metadata_book_uuid x = metadata_uuid doc \<and> trim (body x) = t)
      \<longleftrightarrow> (\<exists>x\<in>set existing'. metadata_book_uuid x = metadata_uuid doc \<and> trim (body x) = t)" for t
    by auto
  then show "filterOutExistingHighlights doc new existing = filterOutExistingHighlights doc new existing'"
    by (simp add: filterOutExistingHighlights_conv)
next
  assume h: "parse_results m = [\<lparr>result_book = a, result_highlights = [ha]\<rparr>,
                          \<lparr>result_book = b, result_highlights = [hb]\<rparr>]
      \<and> (\<forall>n. \<not> fails e n)
      \<and> parse e m (new_process books highlights) = (r, w')
      \<and> find (\<lambda>x. metadata_original_title x = book_title a) (store_books w') = Some da
      \<and> find (\<lambda>x. metadata_original_title x = book_title b) (store_books w') = Some db
      \<and> metadata_uuid da \<noteq> metadata_uuid db
      \<and> trim (content ha) = trim (content hb)
      \<and> (\<forall>x\<in>set highlights. trim (body x) \<noteq> trim (content ha))"
  let ?w0 = "log [Time ''complete''] (new_process books highlights)"
  from h have pr: "parse e m (new_process books highlights) = (r, w')" and nf: "\<forall>n. \<not> fails e n"
    by blast+
  from parse_completes [OF pr nf] have r: "r = Fulfilled ()" .
  from h r obtain v where
    p: "parse_each e [\<lparr>result_book = a, result_highlights = [ha]\<rparr>,
                      \<lparr>result_book = b, result_highlights = [hb]\<rparr>] ?w0 = (Fulfilled (), v)"
    and v: "w' = log [TimeEnd ''complete''] v"
    by (auto elim!: parse_cases)
  from p obtain w1 where
    a1: "addBookAndHighlights e a [ha] ?w0 = (Fulfilled (), w1)"
    and a2: "addBookAndHighlights e b [hb] w1 = (Fulfilled (), v)"
    by (rule parse_each_two) simp
  have k0: "coherent ?w0" by simp
  from addBookAndHighlights_effect [OF a1 k0] obtain doca dsa where
    k1: "coherent w1"
    and fa: "find (\<lambda>x. metadata_original_title x = book_title a) (store_books w1) = Some doca"
    and sa: "store_highlights w1 = store_highlights ?w0 @ dsa"
    and ma: "map body dsa = map content (filterOutExistingHighlights doca [ha] (store_highlights ?w0))"
    and ua: "\<forall>d\<in>set dsa. metadata_book_uuid d = metadata_uuid doca" by auto
  from addBookAndHighlights_effect [OF a2 k1] obtain docb dsb where
    fb: "find (\<lambda>x. metadata_original_title x = book_title b) (store_books v) = Some docb"
    and sb: "store_highlights v = store_highlights w1 @ dsb"
    and mb: "map body dsb = map content (filterOutExistingHighlights docb [hb] (store_highlights w1))"
    and ub: "\<forall>d\<in>set dsb. metadata_book_uuid d = metadata_uuid docb" by auto
  have s0: "store_highlights ?w0 = highlights" by (simp add: new_process_def)
  from h have new: "\<forall>x\<in>set highlights. trim (body x) \<noteq> trim (content ha)" by blast
  then have "filterOutExistingHighlights doca [ha] highlights = [ha]"
    by (auto simp: filterOutExistingHighlights_conv)
  with ma s0 obtain xa where xa: "dsa = [xa]" "body xa = content ha"
    by (cases dsa) auto
  from addBookAndHighlights_grows [OF a2] obtain bs where "store_books v = store_books w1 @ bs"
    by (auto simp: grows_def prefix_def)
  with fa have "find (\<lambda>x. metadata_original_title x = book_title a) (store_books v) = Some doca"
    by (simp add: find_append_Some)
  with h v have da: "da = doca" by simp
  from h v fb have db: "db = docb" by simp
  from h da db have ne: "metadata_uuid doca \<noteq> metadata_uuid docb" by blast
  from xa ua have uxa: "metadata_book_uuid xa = metadata_uuid doca" by simp
  from h have eq: "trim (content ha) = trim (content hb)" by blast
  have "filterOutExistingHighlights docb [hb] (highlights @ [xa]) = [hb]"
    using new ne uxa eq by (auto simp: filterOutExistingHighlights_conv)
  with mb sa s0 xa obtain xb where xb: "dsb = [xb]" "body xb = content hb"
    by (cases dsb) auto
  from xb ub have uxb: "metadata_book_uuid xb = metadata_uuid docb" by simp
  from sb sa s0 xa xb v have "store_highlights w' = highlights @ [xa, xb]" by simp
  with xa xb uxa uxb da db
  have "\<exists>xa xb. store_highlights w' = highlights @ [xa, xb]
           \<and> body xa = content ha \<and> metadata_book_uuid xa = metadata_uuid da
           \<and> body xb = content hb \<and> metadata_book_uuid xb = metadata_uuid db"
    by blast
  with r show "r = Fulfilled ()
        \<and> (\<exists>xa xb. store_highlights w' = highlights @ [xa, xb]
           \<and> body xa = content ha \<and> metadata_book_uuid xa = metadata_uuid da
           \<and> body xb = content hb \<and> metadata_book_uuid xb = metadata_uuid db)"
    by simp
qed

theorem dedup_is_scoped_to_the_book_witness:
  "parse example_env two_books (new_process [] [stored ''uuid-other'' ''Another quote.''])
     = (Fulfilled (), snd (parse example_env two_books (new_process [] [stored ''uuid-other'' ''Another quote.''])))
   \<and> map (\<lambda>x. (body x, metadata_book_uuid x))
        (store_highlights (snd (parse example_env two_books
            (new_process [] [stored ''uuid-other'' ''Another quote.'']))))
      = [(''Another quote.'', ''uuid-other''), (''Same quote.'', ''uuid-''), (''Same quote.'', ''uuid-xx'')]"
proof -
  let ?w = "snd (parse example_env two_books (new_process [] [stored ''uuid-other'' ''Another quote.'']))"
  have r: "parse_results two_books = [\<lparr>result_book = foo, result_highlights = [quote ''Same quote.'']\<rparr>,
                                     \<lparr>result_book = bar, result_highlights = [quote ''Same quote.'']\<rparr>]"
    by (simp add: parse_results_def two_books_def)
  have f: "parse example_env two_books (new_process [] [stored ''uuid-other'' ''Another quote.'']) = (Fulfilled (), ?w)"
    by (simp add: run_defs)
  have b: "map (\<lambda>x. (metadata_original_title x, metadata_uuid x)) (store_books ?w)
      = [(''Foo'', ''uuid-''), (''Bar'', ''uuid-xx'')]"
    by (simp add: run_defs)
  then obtain da db where s: "store_books ?w = [da, db]"
    "metadata_original_title da = ''Foo''" "metadata_uuid da = ''uuid-''"
    "metadata_original_title db = ''Bar''" "metadata_uuid db = ''uuid-xx''"
    by auto
  have nf: "\<forall>n. \<not> fails example_env n"
    by (simp add: example_env_def)
  have n: "\<forall>x\<in>set [stored ''uuid-other'' ''Another quote.'']. trim (body x) \<noteq> trim (content (quote ''Same quote.''))"
    by (simp add: example_defs trim_def is_white_space_def)
  from dedup_is_scoped_to_the_book [THEN conjunct2, rule_format,
      where m = two_books and e = example_env and a = foo and b = bar
        and ha = "quote ''Same quote.''" and hb = "quote ''Same quote.''"
        and books = "[]" and highlights = "[stored ''uuid-other'' ''Another quote.'']"
        and w' = ?w and da = da and db = db and r = "Fulfilled ()"]
    r f s n nf
  obtain xa xb where "store_highlights ?w = [stored ''uuid-other'' ''Another quote.''] @ [xa, xb]"
    "body xa = ''Same quote.''" "metadata_book_uuid xa = ''uuid-''"
    "body xb = ''Same quote.''" "metadata_book_uuid xb = ''uuid-xx''"
    by (auto simp: foo_def bar_def quote_def)
  with f show ?thesis by (simp add: stored_def)
qed

end
